theory Spec2Isabelle
  imports Complex_Main "HOL-Library.AList"
begin

section \<open>The SPDAC driver: trigger pool and virtual-gate arrangements\<close>

text \<open>
  A shallow embedding of \<^verbatim>\<open>src/SPDev/SPDAC.py\<close>. Python ints are \<^typ>\<open>int\<close>; voltages
  (Python and numpy floats) are modelled as exact \<^typ>\<open>real\<close> numbers, so rounding error,
  infinities and NaN of IEEE arithmetic are outside the model. A numpy vector is a
  \<^typ>\<open>real list\<close>, a numpy matrix the list of its rows. Every exception the modelled code
  raises is a value of \<open>error\<close>; a method returns its outcome together with the state it
  leaves behind, because Python keeps the mutations made before a raise.
\<close>

subsection \<open>Errors\<close>

datatype error =
    ResourceExhausted
      \<comment> \<open>\<^verbatim>\<open>ValueError('no free internal triggers')\<close>, raised by \<^verbatim>\<open>allocate_trigger\<close>\<close>
  | UnknownContact string
      \<comment> \<open>\<^verbatim>\<open>ValueError('No contact named "..."')\<close>, raised by \<^verbatim>\<open>set_virtual_voltage(s)\<close>\<close>
  | KeyError string
      \<comment> \<open>an untranslated dictionary lookup failure\<close>
  | LengthMismatch
      \<comment> \<open>\<^verbatim>\<open>ValueError('There must be exactly one voltage per contact')\<close>\<close>
  | IndexError
      \<comment> \<open>a list read out of range\<close>
  | AttributeError int
      \<comment> \<open>\<^verbatim>\<open>getattr(self, f'ch{ch:02}')\<close> for a channel that was never set up\<close>
  | ValidationError real
      \<comment> \<open>the \<^verbatim>\<open>validators.Numbers(-10.0, 10.0)\<close> of \<^verbatim>\<open>dc_constant_V\<close> rejects the value\<close>
  | NumpyValueError
      \<comment> \<open>numpy refuses a negative sample count or a row of the wrong length\<close>

subsection \<open>SCPI commands written to the instrument\<close>

text \<open>
  The commands are kept structured instead of rendered to text, since the rendering of
  a float is not part of the model. Each constructor stands for one template of the source.
\<close>

datatype scpi =
    Sour_volt_mode_fix int         \<comment> \<open>\<^verbatim>\<open>sour:volt:mode {ch},fix\<close>\<close>
  | Sour_volt int real             \<comment> \<open>\<^verbatim>\<open>sour:volt {ch},{v}\<close>\<close>
  | Outp_trig_sour_hold int        \<comment> \<open>\<^verbatim>\<open>outp:trig:sour {port},hold\<close>\<close>
  | Outp_trig_sour_int int int     \<comment> \<open>\<^verbatim>\<open>outp:trig:sour {port},int{n}\<close>\<close>
  | Outp_trig_widt int real        \<comment> \<open>\<^verbatim>\<open>outp:trig:widt {port},{width_s}\<close>\<close>
  | Sour_dc_mark_sst int int       \<comment> \<open>\<^verbatim>\<open>sour:dc:mark:sst {ch} {n}\<close>\<close>
  | Sour_dc_abor int               \<comment> \<open>\<^verbatim>\<open>sour:dc:abor {ch}\<close>\<close>
  | Sour_dc_trig_sour_imm int      \<comment> \<open>\<^verbatim>\<open>sour:dc:trig:sour {ch} imm\<close>\<close>

subsection \<open>The driver object and its trigger pool\<close>

text \<open>
  \<^verbatim>\<open>SPDacTrigger_Context\<close> wraps an allocated trigger number. Of the \<^verbatim>\<open>SPDac\<close> object the
  model keeps the set of free internal triggers, the debug setting \<^verbatim>\<open>_round_off\<close>
  and the sequence of commands handed to the transport so far.
\<close>

datatype trigger_context = SPDacTrigger_Context (trigger_value: int)

record spdac =
  internal_triggers :: "int set"
  round_off :: "int option"
  sent :: "scpi list"

definition n_triggers :: int where
  "n_triggers = 14"

definition trigger_context_to_value :: "trigger_context \<Rightarrow> int" where
  "trigger_context_to_value trigger = trigger_value trigger"

text \<open>\<^verbatim>\<open>set(range(1, self.n_triggers() + 1))\<close>\<close>

definition set_up_internal_triggers :: "spdac \<Rightarrow> spdac" where
  "set_up_internal_triggers s = s\<lparr>internal_triggers := {1..n_triggers}\<rparr>"

text \<open>
  \<^verbatim>\<open>set.pop()\<close> removes and returns an arbitrary element, so \<open>allocate_trigger\<close> yields
  the set of its possible outcomes: one per free trigger, or the single failure when the
  pool is empty.
\<close>

definition allocate_trigger :: "spdac \<Rightarrow> ((error + trigger_context) \<times> spdac) set" where
  "allocate_trigger s =
     (if internal_triggers s = {} then {(Inl ResourceExhausted, s)}
      else (\<lambda>number. (Inr (SPDacTrigger_Context number),
                        s\<lparr>internal_triggers := internal_triggers s - {number}\<rparr>))
           ` internal_triggers s)"

definition free_trigger :: "spdac \<Rightarrow> trigger_context \<Rightarrow> spdac" where
  "free_trigger s trigger =
     s\<lparr>internal_triggers := insert (trigger_context_to_value trigger) (internal_triggers s)\<rparr>"

definition free_all_triggers :: "spdac \<Rightarrow> spdac" where
  "free_all_triggers s = set_up_internal_triggers s"

text \<open>\<^verbatim>\<open>SPDac.write\<close>: the command goes to the transport.\<close>

definition spdac_write :: "spdac \<Rightarrow> scpi \<Rightarrow> spdac" where
  "spdac_write s cmd = s\<lparr>sent := sent s @ [cmd]\<rparr>"

text \<open>
  A history of the pool is the list of what happened to it: a trigger was issued, an
  allocation failed, or a trigger was handed back. \<open>replay\<close> follows a history from a
  state and returns the state it leads to, or \<open>None\<close> when the history is not one the
  code can produce (an issued number that \<^verbatim>\<open>pop\<close> could not have returned).
\<close>

datatype pool_event = Issued int | Failed error | Freed int

fun replay :: "spdac \<Rightarrow> pool_event list \<Rightarrow> spdac option" where
  "replay s [] = Some s"
| "replay s (Issued n # es) =
     (let s' = s\<lparr>internal_triggers := internal_triggers s - {n}\<rparr>
      in if (Inr (SPDacTrigger_Context n), s') \<in> allocate_trigger s then replay s' es else None)"
| "replay s (Failed e # es) =
     (if (Inl e, s) \<in> allocate_trigger s then replay s es else None)"
| "replay s (Freed n # es) = replay (free_trigger s (SPDacTrigger_Context n)) es"

text \<open>The triggers issued and not handed back since, in the order of the history.\<close>

fun outstanding :: "int set \<Rightarrow> pool_event list \<Rightarrow> int set" where
  "outstanding out [] = out"
| "outstanding out (Issued n # es) = outstanding (insert n out) es"
| "outstanding out (Failed e # es) = outstanding out es"
| "outstanding out (Freed n # es) = outstanding (out - {n}) es"

fun freed_ids :: "pool_event list \<Rightarrow> int list" where
  "freed_ids [] = []"
| "freed_ids (Freed n # es) = n # freed_ids es"
| "freed_ids (_ # es) = freed_ids es"

subsection \<open>The numpy operations the driver uses\<close>

text \<open>
  \<^verbatim>\<open>np.identity(n)\<close>, \<^verbatim>\<open>np.zeros(n)\<close>, \<^verbatim>\<open>np.matmul\<close> of a matrix with a vector and with a
  matrix. numpy raises when the shapes of a product do not agree; the arrangement keeps
  its matrix square and its vector of the same size (\<open>wf_arrangement\<close> below), so the
  products of the driver are always defined and the model leaves the check out.
\<close>

definition np_identity :: "nat \<Rightarrow> real list list" where
  "np_identity n = map (\<lambda>i. map (\<lambda>j. if i = j then 1 else 0) [0..<n]) [0..<n]"

definition np_zeros :: "nat \<Rightarrow> real list" where
  "np_zeros n = replicate n 0"

definition dot :: "real list \<Rightarrow> real list \<Rightarrow> real" where
  "dot xs ys = sum_list (map2 (*) xs ys)"

definition matvec :: "real list list \<Rightarrow> real list \<Rightarrow> real list" where
  "matvec m v = map (\<lambda>row. dot row v) m"

definition column :: "real list list \<Rightarrow> nat \<Rightarrow> real list" where
  "column m j = map (\<lambda>row. row ! j) m"

definition n_columns :: "real list list \<Rightarrow> nat" where
  "n_columns m = (case m of [] \<Rightarrow> 0 | row # _ \<Rightarrow> length row)"

definition matmul :: "real list list \<Rightarrow> real list list \<Rightarrow> real list list" where
  "matmul a b = map (\<lambda>row. map (\<lambda>j. dot row (column b j)) [0..<n_columns b]) a"

text \<open>
  \<^verbatim>\<open>m[index] = factors\<close> on a two-dimensional array: the row is replaced when \<open>factors\<close>
  has the length of a row, a single factor is broadcast over the row, and any other
  length is refused.
\<close>

definition set_row :: "real list list \<Rightarrow> nat \<Rightarrow> real list \<Rightarrow> error + real list list" where
  "set_row m index factors =
     (if length m \<le> index then Inl IndexError
      else if length factors = n_columns m then Inr (m[index := factors])
      else if length factors = 1 then Inr (m[index := replicate (n_columns m) (hd factors)])
      else Inl NumpyValueError)"

text \<open>
  \<^verbatim>\<open>np.round(x, decimals)\<close> scales by a power of ten, rounds to the nearest integer with
  ties going to the even one (\<^verbatim>\<open>rint\<close>), and scales back.
\<close>

definition rint :: "real \<Rightarrow> int" where
  "rint x =
     (let f = \<lfloor>x\<rfloor>; r = x - of_int f
      in if r < 1 / 2 then f else if 1 / 2 < r then f + 1 else if even f then f else f + 1)"

definition np_round :: "real \<Rightarrow> int \<Rightarrow> real" where
  "np_round x decimals =
     (if 0 \<le> decimals then of_int (rint (x * 10 ^ nat decimals)) / 10 ^ nat decimals
      else of_int (rint (x / 10 ^ nat (- decimals))) * 10 ^ nat (- decimals))"

text \<open>
  \<^verbatim>\<open>np.linspace(start, stop, num)\<close>: \<open>num\<close> points with the step \<open>(stop - start) / (num - 1)\<close>,
  the last one overwritten with \<open>stop\<close>; one point is \<open>start\<close>; a negative count raises.
\<close>

definition linspace :: "real \<Rightarrow> real \<Rightarrow> int \<Rightarrow> error + real list" where
  "linspace start stop num =
     (if num < 0 then Inl NumpyValueError
      else let n = nat num; delta = stop - start;
               y = (if 1 < n then map (\<lambda>i. real i * (delta / real (n - 1)) + start) [0..<n]
                    else map (\<lambda>i. real i * delta + start) [0..<n])
           in Inr (if 1 < n then y[n - 1 := stop] else y))"

text \<open>\<^verbatim>\<open>np.flip(forward)[1:][:-1]\<close> chained after \<open>forward\<close>.\<close>

definition forward_and_back :: "real \<Rightarrow> real \<Rightarrow> int \<Rightarrow> error + real list" where
  "forward_and_back start end steps =
     (case linspace start end steps of
        Inl e \<Rightarrow> Inl e
      | Inr forward \<Rightarrow> Inr (forward @ butlast (tl (rev forward))))"

text \<open>
  \<^verbatim>\<open>zip(*xss)\<close>: the tuples of the elements at the same position, as many as the shortest
  list has; none when there is no list.
\<close>

definition zip_star :: "'a list list \<Rightarrow> 'a list list" where
  "zip_star xss =
     (if xss = [] then []
      else map (\<lambda>t. map (\<lambda>xs. xs ! t) xss) [0..<Min (set (map length xss))])"

subsection \<open>Channels\<close>

text \<open>
  \<^verbatim>\<open>SPDac.channel(ch)\<close> looks up the attribute \<^verbatim>\<open>ch01\<close> .. \<^verbatim>\<open>ch04\<close> made by
  \<^verbatim>\<open>_set_up_channels\<close>; the channel object is represented by its number.
  \<^verbatim>\<open>dc_constant_V\<close> is a parameter validated by \<^verbatim>\<open>Numbers(-10.0, 10.0)\<close> whose setter
  \<^verbatim>\<open>_set_fixed_voltage_immediately\<close> writes two commands.
\<close>

definition channel :: "int \<Rightarrow> error + int" where
  "channel ch = (if 1 \<le> ch \<and> ch \<le> 4 then Inr ch else Inl (AttributeError ch))"

definition set_fixed_voltage_immediately :: "spdac \<Rightarrow> int \<Rightarrow> real \<Rightarrow> spdac" where
  "set_fixed_voltage_immediately s channum v =
     spdac_write (spdac_write s (Sour_volt_mode_fix channum)) (Sour_volt channum v)"

definition dc_constant_V :: "spdac \<Rightarrow> int \<Rightarrow> real \<Rightarrow> (error + unit) \<times> spdac" where
  "dc_constant_V s channum v =
     (if - 10 \<le> v \<and> v \<le> 10 then (Inr (), set_fixed_voltage_immediately s channum v)
      else (Inl (ValidationError v), s))"

definition connect_external_trigger :: "spdac \<Rightarrow> int \<Rightarrow> trigger_context \<Rightarrow> spdac" where
  "connect_external_trigger s port trigger =
     spdac_write (spdac_write s (Outp_trig_sour_int port (trigger_context_to_value trigger)))
       (Outp_trig_widt port (1 / 1000000))"

subsection \<open>Arrangement_Context\<close>

text \<open>
  The dictionaries of the arrangement are association lists in insertion order, looked up
  with \<open>map_of\<close> and written with \<open>AList.update\<close> (an existing key keeps its place, a
  new one goes to the end, as in a Python dict). \<open>arr_internal_triggers\<close> is the
  arrangement's own \<^verbatim>\<open>_internal_triggers\<close> (name to trigger), renamed because the driver
  object has a field of the same name. The arrangement refers to the driver object, so
  its methods take and return both states.
\<close>

record arrangement =
  contact_names :: "string list"
  contacts :: "(string \<times> nat) list"
  channels :: "int list"
  virtual_voltages :: "real list"
  correction :: "real list list"
  arr_internal_triggers :: "(string \<times> trigger_context) list"
  external_triggers :: "(string \<times> int) list"
  outer_trigger_channel :: "int option"

definition shape :: "arrangement \<Rightarrow> nat" where
  "shape a = length (contacts a)"

text \<open>
  \<^verbatim>\<open>_fix_contact_order\<close>: one pass over the items of the \<open>contacts\<close> dictionary, then the
  virtual voltages are all zero.
\<close>

fun fix_contact_order_loop ::
  "(string \<times> int) list \<Rightarrow> nat \<Rightarrow> arrangement \<Rightarrow> arrangement" where
  "fix_contact_order_loop [] index a = a"
| "fix_contact_order_loop ((contact, chan) # rest) index a =
     fix_contact_order_loop rest (index + 1)
       (a\<lparr>contact_names := contact_names a @ [contact],
          contacts := AList.update contact index (contacts a),
          channels := channels a @ [chan]\<rparr>)"

definition fix_contact_order :: "arrangement \<Rightarrow> (string \<times> int) list \<Rightarrow> arrangement" where
  "fix_contact_order a cs =
     (let a' = fix_contact_order_loop cs 0 (a\<lparr>contact_names := [], contacts := [], channels := []\<rparr>)
      in a'\<lparr>virtual_voltages := np_zeros (shape a')\<rparr>)"

text \<open>
  \<^verbatim>\<open>_allocate_internal_triggers\<close>: nothing for \<^verbatim>\<open>None\<close> or an empty sequence, else one
  allocation per name; the first failed allocation ends the loop.
\<close>

fun allocate_internal_triggers_loop ::
  "spdac \<Rightarrow> arrangement \<Rightarrow> string list \<Rightarrow> ((error + unit) \<times> spdac \<times> arrangement) set" where
  "allocate_internal_triggers_loop s a [] = {(Inr (), s, a)}"
| "allocate_internal_triggers_loop s a (name # names) =
     (\<Union>(r, s') \<in> allocate_trigger s.
        case r of
          Inl e \<Rightarrow> {(Inl e, s', a)}
        | Inr trigger \<Rightarrow>
            allocate_internal_triggers_loop s'
              (a\<lparr>arr_internal_triggers := AList.update name trigger (arr_internal_triggers a)\<rparr>)
              names)"

definition allocate_internal_triggers ::
  "spdac \<Rightarrow> arrangement \<Rightarrow> string list option \<Rightarrow> ((error + unit) \<times> spdac \<times> arrangement) set" where
  "allocate_internal_triggers s a trigger_names =
     (case trigger_names of
        None \<Rightarrow> {(Inr (), s, a)}
      | Some names \<Rightarrow> allocate_internal_triggers_loop s a names)"

text \<open>
  \<^verbatim>\<open>_allocate_external_triggers\<close>: for every output trigger the port is recorded, a trigger
  is allocated, routed to the port and recorded under the same name.
\<close>

fun allocate_external_triggers_loop ::
  "spdac \<Rightarrow> arrangement \<Rightarrow> (string \<times> int) list \<Rightarrow> ((error + unit) \<times> spdac \<times> arrangement) set" where
  "allocate_external_triggers_loop s a [] = {(Inr (), s, a)}"
| "allocate_external_triggers_loop s a ((name, port) # rest) =
     (let a1 = a\<lparr>external_triggers := AList.update name port (external_triggers a)\<rparr>
      in \<Union>(r, s') \<in> allocate_trigger s.
           case r of
             Inl e \<Rightarrow> {(Inl e, s', a1)}
           | Inr trigger \<Rightarrow>
               allocate_external_triggers_loop (connect_external_trigger s' port trigger)
                 (a1\<lparr>arr_internal_triggers := AList.update name trigger (arr_internal_triggers a1)\<rparr>)
                 rest)"

definition allocate_external_triggers ::
  "spdac \<Rightarrow> arrangement \<Rightarrow> (string \<times> int) list option
     \<Rightarrow> ((error + unit) \<times> spdac \<times> arrangement) set" where
  "allocate_external_triggers s a output_triggers =
     (let a0 = a\<lparr>external_triggers := []\<rparr>
      in case output_triggers of
           None \<Rightarrow> {(Inr (), s, a0)}
         | Some ports \<Rightarrow> allocate_external_triggers_loop s a0 ports)"

definition allocate_triggers ::
  "spdac \<Rightarrow> arrangement \<Rightarrow> string list option \<Rightarrow> (string \<times> int) list option
     \<Rightarrow> ((error + unit) \<times> spdac \<times> arrangement) set" where
  "allocate_triggers s a trigger_names output_triggers =
     (\<Union>(r, s1, a1) \<in> allocate_internal_triggers s (a\<lparr>arr_internal_triggers := []\<rparr>) trigger_names.
        case r of
          Inl e \<Rightarrow> {(Inl e, s1, a1)}
        | Inr _ \<Rightarrow> allocate_external_triggers s1 a1 output_triggers)"

text \<open>
  \<^verbatim>\<open>Arrangement_Context.__init__\<close>, reached through \<^verbatim>\<open>SPDac.arrange\<close>. When an allocation
  fails no arrangement exists; the driver keeps what was already taken from the pool.
\<close>

definition arrange ::
  "spdac \<Rightarrow> (string \<times> int) list \<Rightarrow> (string \<times> int) list option \<Rightarrow> string list option
     \<Rightarrow> int option \<Rightarrow> ((error + arrangement) \<times> spdac) set" where
  "arrange s cs output_triggers trigger_names outer =
     (let a0 = fix_contact_order
                 \<lparr>contact_names = [], contacts = [], channels = [], virtual_voltages = [],
                  correction = [], arr_internal_triggers = [], external_triggers = [],
                  outer_trigger_channel = None\<rparr> cs
      in (\<lambda>(r, s1, a1).
            case r of
              Inl e \<Rightarrow> (Inl e, s1)
            | Inr _ \<Rightarrow> (Inr (a1\<lparr>outer_trigger_channel := outer,
                                  correction := np_identity (shape a1)\<rparr>), s1))
         ` allocate_triggers s a0 trigger_names output_triggers)"

text \<open>\<^verbatim>\<open>__exit__\<close> and \<^verbatim>\<open>close\<close>: hold every external output, hand every trigger back.\<close>

definition free_triggers :: "spdac \<Rightarrow> arrangement \<Rightarrow> spdac" where
  "free_triggers s a = fold (\<lambda>trigger s'. free_trigger s' trigger) (map snd (arr_internal_triggers a)) s"

definition arrangement_exit :: "spdac \<Rightarrow> arrangement \<Rightarrow> (error + unit) \<times> spdac \<times> arrangement" where
  "arrangement_exit s a =
     (let s1 = (if external_triggers a \<noteq> []
                then fold (\<lambda>port s'. spdac_write s' (Outp_trig_sour_hold port))
                       (map snd (external_triggers a)) s
                else s)
      in (Inr (), free_triggers s1 a, a))"

definition arrangement_close :: "spdac \<Rightarrow> arrangement \<Rightarrow> (error + unit) \<times> spdac \<times> arrangement" where
  "arrangement_close s a = arrangement_exit s a"

subsection \<open>Virtual voltages and the correction matrix\<close>

definition contact_index :: "arrangement \<Rightarrow> string \<Rightarrow> error + nat" where
  "contact_index a contact =
     (case map_of (contacts a) contact of None \<Rightarrow> Inl (KeyError contact) | Some index \<Rightarrow> Inr index)"

definition virtual_voltage :: "arrangement \<Rightarrow> string \<Rightarrow> error + real" where
  "virtual_voltage a contact =
     (case contact_index a contact of
        Inl e \<Rightarrow> Inl e
      | Inr index \<Rightarrow>
          if index < length (virtual_voltages a) then Inr (virtual_voltages a ! index)
          else Inl IndexError)"

text \<open>
  \<^verbatim>\<open>actual_voltages\<close>: the product, rounded when \<^verbatim>\<open>_round_off\<close> is truthy, that is,
  neither \<^verbatim>\<open>None\<close> nor \<open>0\<close>.
\<close>

definition actual_voltages :: "spdac \<Rightarrow> arrangement \<Rightarrow> real list" where
  "actual_voltages s a =
     (let vs = matvec (correction a) (virtual_voltages a)
      in case round_off s of
           None \<Rightarrow> vs
         | Some decimals \<Rightarrow> if decimals \<noteq> 0 then map (\<lambda>x. np_round x decimals) vs else vs)"

text \<open>
  \<^verbatim>\<open>_effectuate_virtual_voltages\<close>: for every contact in declaration order, the corrected
  voltage of its index goes to its channel through \<^verbatim>\<open>dc_constant_V\<close>. The first raise ends
  the loop; what was written before stays written.
\<close>

fun effectuate_loop ::
  "spdac \<Rightarrow> arrangement \<Rightarrow> (nat \<times> int) list \<Rightarrow> (error + unit) \<times> spdac" where
  "effectuate_loop s a [] = (Inr (), s)"
| "effectuate_loop s a ((index, channel_number) # rest) =
     (if length (actual_voltages s a) \<le> index then (Inl IndexError, s)
      else let actual_V = actual_voltages s a ! index
           in case channel channel_number of
                Inl e \<Rightarrow> (Inl e, s)
              | Inr ch \<Rightarrow>
                  (case dc_constant_V s ch actual_V of
                     (Inl e, s') \<Rightarrow> (Inl e, s')
                   | (Inr _, s') \<Rightarrow> effectuate_loop s' a rest))"

definition effectuate_virtual_voltages ::
  "spdac \<Rightarrow> arrangement \<Rightarrow> (error + unit) \<times> spdac \<times> arrangement" where
  "effectuate_virtual_voltages s a =
     (case effectuate_loop s a (enumerate 0 (channels a)) of (r, s') \<Rightarrow> (r, s', a))"

definition effectuate_virtual_voltage ::
  "spdac \<Rightarrow> arrangement \<Rightarrow> nat \<Rightarrow> real \<Rightarrow> (error + unit) \<times> spdac \<times> arrangement" where
  "effectuate_virtual_voltage s a index voltage =
     (if length (virtual_voltages a) \<le> index then (Inl IndexError, s, a)
      else effectuate_virtual_voltages s
             (a\<lparr>virtual_voltages := (virtual_voltages a)[index := voltage]\<rparr>))"

text \<open>\<^verbatim>\<open>set_virtual_voltage\<close> turns the \<^verbatim>\<open>KeyError\<close> of the lookup into its own error.\<close>

definition set_virtual_voltage ::
  "spdac \<Rightarrow> arrangement \<Rightarrow> string \<Rightarrow> real \<Rightarrow> (error + unit) \<times> spdac \<times> arrangement" where
  "set_virtual_voltage s a contact voltage =
     (case contact_index a contact of
        Inl _ \<Rightarrow> (Inl (UnknownContact contact), s, a)
      | Inr index \<Rightarrow> effectuate_virtual_voltage s a index voltage)"

text \<open>
  \<^verbatim>\<open>set_virtual_voltages\<close>: the loop stores every voltage of the dictionary (an unknown
  name raises and keeps what was stored before it); only then are the voltages sent.
\<close>

fun store_virtual_voltages ::
  "arrangement \<Rightarrow> (string \<times> real) list \<Rightarrow> (error + unit) \<times> arrangement" where
  "store_virtual_voltages a [] = (Inr (), a)"
| "store_virtual_voltages a ((contact, voltage) # rest) =
     (case contact_index a contact of
        Inl _ \<Rightarrow> (Inl (UnknownContact contact), a)
      | Inr index \<Rightarrow>
          if length (virtual_voltages a) \<le> index then (Inl IndexError, a)
          else store_virtual_voltages
                 (a\<lparr>virtual_voltages := (virtual_voltages a)[index := voltage]\<rparr>) rest)"

definition set_virtual_voltages ::
  "spdac \<Rightarrow> arrangement \<Rightarrow> (string \<times> real) list \<Rightarrow> (error + unit) \<times> spdac \<times> arrangement" where
  "set_virtual_voltages s a contacts_to_voltages =
     (case store_virtual_voltages a contacts_to_voltages of
        (Inl e, a') \<Rightarrow> (Inl e, s, a')
      | (Inr _, a') \<Rightarrow> effectuate_virtual_voltages s a')"

text \<open>
  \<^verbatim>\<open>initiate_correction\<close> replaces a row; \<^verbatim>\<open>add_correction\<close> replaces the row of an
  identity matrix and multiplies it to the correction matrix from the left. Neither
  translates the \<^verbatim>\<open>KeyError\<close> of an unknown contact.
\<close>

definition initiate_correction ::
  "arrangement \<Rightarrow> string \<Rightarrow> real list \<Rightarrow> (error + unit) \<times> arrangement" where
  "initiate_correction a contact factors =
     (case contact_index a contact of
        Inl e \<Rightarrow> (Inl e, a)
      | Inr index \<Rightarrow>
          (case set_row (correction a) index factors of
             Inl e \<Rightarrow> (Inl e, a)
           | Inr m \<Rightarrow> (Inr (), a\<lparr>correction := m\<rparr>)))"

definition add_correction ::
  "arrangement \<Rightarrow> string \<Rightarrow> real list \<Rightarrow> (error + unit) \<times> arrangement" where
  "add_correction a contact factors =
     (case contact_index a contact of
        Inl e \<Rightarrow> (Inl e, a)
      | Inr index \<Rightarrow>
          (case set_row (np_identity (shape a)) index factors of
             Inl e \<Rightarrow> (Inl e, a)
           | Inr multiplier \<Rightarrow> (Inr (), a\<lparr>correction := matmul multiplier (correction a)\<rparr>)))"

subsection \<open>Sweep programs\<close>

text \<open>
  \<^verbatim>\<open>_calculate_1d_values\<close>: remember the contact's virtual voltage, record the corrected
  voltages for every value of the sweep, put the remembered voltage back.
\<close>

fun calculate_1d_loop ::
  "spdac \<Rightarrow> arrangement \<Rightarrow> nat \<Rightarrow> real list \<Rightarrow> real list list
     \<Rightarrow> real list list \<times> arrangement" where
  "calculate_1d_loop s a index [] sweep = (sweep, a)"
| "calculate_1d_loop s a index (v # voltages) sweep =
     (let a' = a\<lparr>virtual_voltages := (virtual_voltages a)[index := v]\<rparr>
      in calculate_1d_loop s a' index voltages (sweep @ [actual_voltages s a']))"

definition calculate_1d_values ::
  "spdac \<Rightarrow> arrangement \<Rightarrow> string \<Rightarrow> real list \<Rightarrow> (error + real list list) \<times> arrangement" where
  "calculate_1d_values s a contact voltages =
     (case virtual_voltage a contact of
        Inl e \<Rightarrow> (Inl e, a)
      | Inr original_voltage \<Rightarrow>
          (case contact_index a contact of
             Inl e \<Rightarrow> (Inl e, a)
           | Inr index \<Rightarrow>
               (case calculate_1d_loop s a index voltages [] of
                  (sweep, a') \<Rightarrow>
                    (Inr sweep,
                     a'\<lparr>virtual_voltages := (virtual_voltages a')[index := original_voltage]\<rparr>))))"

text \<open>A list comprehension whose body may raise: the first raise is the result.\<close>

fun map_raising :: "('a \<Rightarrow> error + 'b) \<Rightarrow> 'a list \<Rightarrow> error + 'b list" where
  "map_raising f [] = Inr []"
| "map_raising f (x # xs) =
     (case f x of
        Inl e \<Rightarrow> Inl e
      | Inr y \<Rightarrow> (case map_raising f xs of Inl e \<Rightarrow> Inl e | Inr ys \<Rightarrow> Inr (y # ys)))"

definition check_same_lengths :: "string list \<Rightarrow> real list \<Rightarrow> real list \<Rightarrow> error + unit" where
  "check_same_lengths cs start_V end_V =
     (if length cs \<noteq> length start_V then Inl LengthMismatch
      else if length cs \<noteq> length end_V then Inl LengthMismatch
      else Inr ())"

text \<open>
  \<^verbatim>\<open>_calculate_detune_values\<close>: every listed contact gets its own forward-and-back
  sequence; step by step the listed contacts are set to the values of their sequences
  and the corrected voltages are recorded; at the end the remembered voltages return.
\<close>

definition forward_V_at :: "real list \<Rightarrow> real list \<Rightarrow> int \<Rightarrow> nat \<Rightarrow> error + real list" where
  "forward_V_at start_V end_V steps i =
     (if length start_V \<le> i \<or> length end_V \<le> i then Inl IndexError
      else forward_and_back (start_V ! i) (end_V ! i) steps)"

definition store_all :: "real list \<Rightarrow> nat list \<Rightarrow> real list \<Rightarrow> real list" where
  "store_all vv indices voltages = fold (\<lambda>(index, voltage) vv'. vv'[index := voltage]) (zip indices voltages) vv"

fun calculate_detune_loop ::
  "spdac \<Rightarrow> arrangement \<Rightarrow> nat list \<Rightarrow> real list list \<Rightarrow> real list list
     \<Rightarrow> real list list \<times> arrangement" where
  "calculate_detune_loop s a indices [] sweep = (sweep, a)"
| "calculate_detune_loop s a indices (voltages # rest) sweep =
     (let a' = a\<lparr>virtual_voltages := store_all (virtual_voltages a) indices voltages\<rparr>
      in calculate_detune_loop s a' indices rest (sweep @ [actual_voltages s a']))"

definition calculate_detune_values ::
  "spdac \<Rightarrow> arrangement \<Rightarrow> string list \<Rightarrow> real list \<Rightarrow> real list \<Rightarrow> int
     \<Rightarrow> (error + real list list) \<times> arrangement" where
  "calculate_detune_values s a cs start_V end_V steps =
     (case map_raising (virtual_voltage a) cs of
        Inl e \<Rightarrow> (Inl e, a)
      | Inr original_voltages \<Rightarrow>
          (case map_raising (contact_index a) cs of
             Inl e \<Rightarrow> (Inl e, a)
           | Inr indices \<Rightarrow>
               (case map_raising (forward_V_at start_V end_V steps) [0..<length cs] of
                  Inl e \<Rightarrow> (Inl e, a)
                | Inr forward_V \<Rightarrow>
                    (case calculate_detune_loop s a indices (zip_star forward_V) [] of
                       (sweep, a') \<Rightarrow>
                         (Inr sweep,
                          a'\<lparr>virtual_voltages :=
                               store_all (virtual_voltages a') indices original_voltages\<rparr>)))))"

subsection \<open>Virtual_Sweep_Context\<close>

text \<open>
  The sweep context refers to its arrangement. Its constructor allocates the start
  trigger under the given name, or under a fresh random name (\<^verbatim>\<open>uuid.uuid4().hex\<close>, here
  the argument \<open>uuid\<close>) when the name is \<^verbatim>\<open>None\<close> or empty.
\<close>

record virtual_sweep_context =
  sweep :: "real list list"
  step_trigger :: "string option"
  step_time_s :: real
  repetitions :: "int option"
  start_trigger_name :: string
  spdac_ready :: bool

definition virtual_sweep_context_init ::
  "spdac \<Rightarrow> arrangement \<Rightarrow> real list list \<Rightarrow> string option \<Rightarrow> real \<Rightarrow> string option
     \<Rightarrow> int option \<Rightarrow> string \<Rightarrow> ((error + virtual_sweep_context) \<times> spdac \<times> arrangement) set" where
  "virtual_sweep_context_init s a sw start_trigger step_time step_trig reps uuid =
     (let start_sweep = (case start_trigger of
                           None \<Rightarrow> uuid
                         | Some name \<Rightarrow> if name = [] then uuid else name)
      in (\<lambda>(r, s', a').
            (case r of
               Inl e \<Rightarrow> Inl e
             | Inr _ \<Rightarrow> Inr \<lparr>sweep = sw, step_trigger = step_trig, step_time_s = step_time,
                              repetitions = reps, start_trigger_name = start_sweep,
                              spdac_ready = False\<rparr>,
             s', a'))
         ` allocate_internal_triggers s a (Some [start_sweep]))"

definition virtual_sweep ::
  "spdac \<Rightarrow> arrangement \<Rightarrow> string \<Rightarrow> real list \<Rightarrow> string option \<Rightarrow> real \<Rightarrow> string option
     \<Rightarrow> int option \<Rightarrow> string \<Rightarrow> ((error + virtual_sweep_context) \<times> spdac \<times> arrangement) set" where
  "virtual_sweep s a contact voltages start_sweep_trigger step_time step_trig reps uuid =
     (case calculate_1d_values s a contact voltages of
        (Inl e, a') \<Rightarrow> {(Inl e, s, a')}
      | (Inr sw, a') \<Rightarrow>
          virtual_sweep_context_init s a' sw start_sweep_trigger step_time step_trig reps uuid)"

definition virtual_detune ::
  "spdac \<Rightarrow> arrangement \<Rightarrow> string list \<Rightarrow> real list \<Rightarrow> real list \<Rightarrow> int \<Rightarrow> string option
     \<Rightarrow> real \<Rightarrow> string option \<Rightarrow> int option \<Rightarrow> string
     \<Rightarrow> ((error + virtual_sweep_context) \<times> spdac \<times> arrangement) set" where
  "virtual_detune s a cs start_V end_V steps start_trigger step_time step_trig reps uuid =
     (case check_same_lengths cs start_V end_V of
        Inl e \<Rightarrow> {(Inl e, s, a)}
      | Inr _ \<Rightarrow>
          (case calculate_detune_values s a cs start_V end_V steps of
             (Inl e, a') \<Rightarrow> {(Inl e, s, a')}
           | (Inr sw, a') \<Rightarrow>
               virtual_sweep_context_init s a' sw start_trigger step_time step_trig reps uuid))"

text \<open>
  \<^verbatim>\<open>__exit__\<close> clears the step marker on the first contact's channel, then aborts the
  list and restores immediate triggering on every contact's channel. \<^verbatim>\<open>close\<close> runs it
  and then closes the arrangement. Neither reads or writes a field of the context.
\<close>

definition get_channel :: "arrangement \<Rightarrow> nat \<Rightarrow> error + int" where
  "get_channel a index =
     (if length (channels a) \<le> index then Inl IndexError
      else channel (channels a ! index))"

fun stop_lists_loop :: "spdac \<Rightarrow> arrangement \<Rightarrow> nat list \<Rightarrow> (error + unit) \<times> spdac" where
  "stop_lists_loop s a [] = (Inr (), s)"
| "stop_lists_loop s a (index # rest) =
     (case get_channel a index of
        Inl e \<Rightarrow> (Inl e, s)
      | Inr ch \<Rightarrow>
          stop_lists_loop
            (spdac_write (spdac_write s (Sour_dc_abor ch)) (Sour_dc_trig_sour_imm ch)) a rest)"

definition virtual_sweep_exit ::
  "spdac \<Rightarrow> arrangement \<Rightarrow> virtual_sweep_context \<Rightarrow> (error + unit) \<times> spdac" where
  "virtual_sweep_exit s a ctx =
     (case get_channel a 0 of
        Inl e \<Rightarrow> (Inl e, s)
      | Inr ch \<Rightarrow> stop_lists_loop (spdac_write s (Sour_dc_mark_sst ch 0)) a [0..<shape a])"

definition virtual_sweep_close ::
  "spdac \<Rightarrow> arrangement \<Rightarrow> virtual_sweep_context \<Rightarrow> (error + unit) \<times> spdac \<times> arrangement" where
  "virtual_sweep_close s a ctx =
     (case virtual_sweep_exit s a ctx of
        (Inl e, s') \<Rightarrow> (Inl e, s', a)
      | (Inr _, s') \<Rightarrow> arrangement_close s' a)"

subsection \<open>The shape invariant of an arrangement\<close>

text \<open>
  One channel and one virtual voltage per contact, a square correction matrix of that
  size, and every contact index inside it.
\<close>

definition wf_arrangement :: "arrangement \<Rightarrow> bool" where
  "wf_arrangement a =
     (length (channels a) = shape a
      \<and> length (virtual_voltages a) = shape a
      \<and> length (correction a) = shape a
      \<and> list_all (\<lambda>row. length row = shape a) (correction a)
      \<and> list_all (\<lambda>(name, index). index < shape a) (contacts a))"

text \<open>
  \<^verbatim>\<open>_set_up_debug_settings\<close> switches rounding off; \<^verbatim>\<open>SPDac.__init__\<close> runs it and
  \<^verbatim>\<open>_set_up_internal_triggers\<close>. Nothing has been written to the instrument yet.
\<close>

definition set_up_debug_settings :: "spdac \<Rightarrow> spdac" where
  "set_up_debug_settings s = s\<lparr>round_off := None\<rparr>"

definition SPDac_init :: spdac where
  "SPDac_init =
     set_up_internal_triggers
       (set_up_debug_settings \<lparr>internal_triggers = {}, round_off = None, sent = []\<rparr>)"

text \<open>
  The arrangement \<^verbatim>\<open>spdac.arrange({'a': 1, 'b': 2})\<close> as its constructor leaves it; the
  examples below start from it.
\<close>

definition two_contacts :: arrangement where
  "two_contacts =
     \<lparr>contact_names = [''a'', ''b''], contacts = [(''a'', 0), (''b'', 1)], channels = [1, 2],
      virtual_voltages = [0, 0], correction = [[1, 0], [0, 1]], arr_internal_triggers = [],
      external_triggers = [], outer_trigger_channel = None\<rparr>"

definition one_contact :: arrangement where
  "one_contact =
     \<lparr>contact_names = [''a''], contacts = [(''a'', 0)], channels = [1],
      virtual_voltages = [0], correction = [[1]], arr_internal_triggers = [],
      external_triggers = [], outer_trigger_channel = None\<rparr>"

subsection \<open>The forward-and-back trace in the words of the specification\<close>

text \<open>
  The \<open>n\<close> evenly spaced points from \<open>start\<close> to \<open>stop\<close>, and a list of points followed by
  the reverse of those points without both end points. These two follow the
  specification's description of the detune sweep; the theorems compare them with
  \<open>linspace\<close> and \<open>forward_and_back\<close>, which follow the source.
\<close>

definition evenly_spaced :: "real \<Rightarrow> real \<Rightarrow> nat \<Rightarrow> real list" where
  "evenly_spaced start stop n =
     map (\<lambda>i. if n \<le> 1 then start else start + real i * (stop - start) / real (n - 1)) [0..<n]"

definition there_and_back :: "real list \<Rightarrow> real list" where
  "there_and_back points = points @ rev (butlast (tl points))"

subsection \<open>The writes of one complete update\<close>

text \<open>
  What sending the corrected voltages of an arrangement amounts to when nothing is
  rejected: for every contact in declaration order the mode command and one voltage
  write to the contact's channel, carrying that contact's entry of \<open>actual_voltages\<close>.
  This is the yardstick for \<open>set_virtual_voltages\<close>, not a translation of source code.
\<close>

definition channel_writes :: "spdac \<Rightarrow> arrangement \<Rightarrow> (nat \<times> int) list \<Rightarrow> scpi list" where
  "channel_writes s a chs =
     concat (map (\<lambda>(index, channel_number).
                    [Sour_volt_mode_fix channel_number,
                     Sour_volt channel_number (actual_voltages s a ! index)]) chs)"

definition physical_writes :: "spdac \<Rightarrow> arrangement \<Rightarrow> scpi list" where
  "physical_writes s a = channel_writes s a (enumerate 0 (channels a))"

section \<open>Properties of the trigger pool\<close>

lemma replay_append:
  "replay s (es @ es') = (case replay s es of None \<Rightarrow> None | Some s' \<Rightarrow> replay s' es')"
  by (induction s es rule: replay.induct) (auto simp: Let_def)

lemma outstanding_append:
  "outstanding out (es @ es') = outstanding (outstanding out es) es'"
  by (induction out es rule: outstanding.induct) auto

lemma allocate_trigger_Inr:
  "(Inr t, s') \<in> allocate_trigger s \<longleftrightarrow>
     trigger_value t \<in> internal_triggers s
     \<and> s' = s\<lparr>internal_triggers := internal_triggers s - {trigger_value t}\<rparr>"
  by (cases t) (auto simp: allocate_trigger_def)

lemma allocate_trigger_Inl:
  "(Inl e, s') \<in> allocate_trigger s \<longleftrightarrow> internal_triggers s = {} \<and> e = ResourceExhausted \<and> s' = s"
  by (auto simp: allocate_trigger_def)

lemma replay_partition:
  "replay s es = Some s' \<Longrightarrow> set (freed_ids es) \<subseteq> U \<Longrightarrow>
   internal_triggers s \<inter> out = {} \<Longrightarrow> internal_triggers s \<union> out = U \<Longrightarrow>
   internal_triggers s' \<inter> outstanding out es = {} \<and> internal_triggers s' \<union> outstanding out es = U"
proof (induction s es arbitrary: out rule: replay.induct)
  case (1 s)
  then show ?case by simp
next
  case (2 s n es)
  let ?s = "s\<lparr>internal_triggers := internal_triggers s - {n}\<rparr>"
  from "2.prems"(1) have n: "n \<in> internal_triggers s" and r: "replay ?s es = Some s'"
    by (auto simp: Let_def allocate_trigger_Inr split: if_splits)
  have "internal_triggers ?s \<inter> insert n out = {}" using "2.prems"(3) by auto
  moreover have "internal_triggers ?s \<union> insert n out = U" using "2.prems"(4) n by auto
  moreover have "set (freed_ids es) \<subseteq> U" using "2.prems"(2) by simp
  ultimately show ?case using "2.IH"[OF refl _ r, of "insert n out"] n
    by (simp add: Let_def allocate_trigger_Inr)
next
  case (3 s e es)
  then show ?case by (auto split: if_splits)
next
  case (4 s n es)
  let ?s = "free_trigger s (SPDacTrigger_Context n)"
  from "4.prems" have r: "replay ?s es = Some s'" and nU: "n \<in> U" and f: "set (freed_ids es) \<subseteq> U"
    by auto
  have "internal_triggers ?s \<inter> (out - {n}) = {}" using "4.prems"(3)
    by (auto simp: free_trigger_def trigger_context_to_value_def)
  moreover have "internal_triggers ?s \<union> (out - {n}) = U" using "4.prems"(4) nU
    by (auto simp: free_trigger_def trigger_context_to_value_def)
  ultimately show ?case using "4.IH"[OF r f, of "out - {n}"] by simp
qed

lemma replay_disjoint:
  "replay s es = Some s' \<Longrightarrow> internal_triggers s \<inter> out = {} \<Longrightarrow>
   internal_triggers s' \<inter> outstanding out es = {}"
proof (induction s es arbitrary: out rule: replay.induct)
  case (2 s n es)
  let ?s = "s\<lparr>internal_triggers := internal_triggers s - {n}\<rparr>"
  from "2.prems"(1) have n: "n \<in> internal_triggers s" and r: "replay ?s es = Some s'"
    by (auto simp: Let_def allocate_trigger_Inr split: if_splits)
  have "internal_triggers ?s \<inter> insert n out = {}" using "2.prems"(2) by auto
  then show ?case using "2.IH"[OF refl _ r, of "insert n out"] n
    by (simp add: Let_def allocate_trigger_Inr)
next
  case (4 s n es)
  let ?s = "free_trigger s (SPDacTrigger_Context n)"
  have "internal_triggers ?s \<inter> (out - {n}) = {}" using "4.prems"(2)
    by (auto simp: free_trigger_def trigger_context_to_value_def)
  then show ?case using "4.IH"[of "out - {n}"] "4.prems"(1) by simp
qed (auto split: if_splits)

lemma freed_ids_append: "freed_ids (es @ es') = freed_ids es @ freed_ids es'"
  by (induction es rule: freed_ids.induct) auto

text \<open>
  Claim C1. Take any history of allocations and frees that the code can produce from the
  full pool of 14 triggers, in which the numbers handed back are trigger numbers (1 to 14).
  No trigger is issued while it is outstanding, that is, issued and not handed back since;
  at every moment the outstanding triggers are among the 14, so there are at most 14 of
  them; the free pool and the outstanding triggers partition the 14 numbers; an
  allocation fails only with \<open>ResourceExhausted\<close> and only when all 14 are outstanding;
  and from an empty pool the failure is the only outcome of \<open>allocate_trigger\<close>, from a
  non-empty pool no outcome is a failure.
\<close>

theorem trigger_pool_invariant:
  assumes run: "replay (set_up_internal_triggers s0) es = Some s"
    and ids: "set (freed_ids es) \<subseteq> {1..n_triggers}"
  shows "(\<forall>pre n post. es = pre @ Issued n # post \<longrightarrow> n \<notin> outstanding {} pre)
       \<and> (\<forall>pre post. es = pre @ post \<longrightarrow>
             outstanding {} pre \<subseteq> {1..n_triggers} \<and> card (outstanding {} pre) \<le> 14)
       \<and> internal_triggers s \<inter> outstanding {} es = {}
       \<and> internal_triggers s \<union> outstanding {} es = {1..n_triggers}
       \<and> (\<forall>pre e post. es = pre @ Failed e # post \<longrightarrow>
             e = ResourceExhausted \<and> outstanding {} pre = {1..n_triggers})
       \<and> (internal_triggers s = {} \<longrightarrow> allocate_trigger s = {(Inl ResourceExhausted, s)})
       \<and> (internal_triggers s \<noteq> {} \<longrightarrow> (\<forall>(r, s') \<in> allocate_trigger s. \<exists>t. r = Inr t))"
proof -
  let ?s = "set_up_internal_triggers s0"
  have init: "internal_triggers ?s \<inter> {} = {}" "internal_triggers ?s \<union> {} = {1..n_triggers}"
    by (simp_all add: set_up_internal_triggers_def)
  have prefix: "\<exists>s1. replay ?s pre = Some s1 \<and> replay s1 post = Some s
                  \<and> internal_triggers s1 \<inter> outstanding {} pre = {}
                  \<and> internal_triggers s1 \<union> outstanding {} pre = {1..n_triggers}"
    if "es = pre @ post" for pre post
  proof -
    from run that obtain s1 where s1: "replay ?s pre = Some s1" "replay s1 post = Some s"
      by (auto simp: replay_append split: option.splits)
    from ids that have "set (freed_ids pre) \<subseteq> {1..n_triggers}"
      by (simp add: freed_ids_append)
    from replay_partition[OF s1(1) this init] s1 show ?thesis by blast
  qed
  have a: "n \<notin> outstanding {} pre" if "es = pre @ Issued n # post" for pre n post
  proof -
    from prefix[OF that] obtain s1 where s1: "replay s1 (Issued n # post) = Some s"
      "internal_triggers s1 \<inter> outstanding {} pre = {}" by blast
    from s1(1) have "n \<in> internal_triggers s1"
      by (auto simp: Let_def allocate_trigger_Inr split: if_splits)
    with s1(2) show ?thesis by blast
  qed
  have b: "outstanding {} pre \<subseteq> {1..n_triggers} \<and> card (outstanding {} pre) \<le> 14"
    if "es = pre @ post" for pre post
  proof -
    from prefix[OF that] have sub: "outstanding {} pre \<subseteq> {1..n_triggers}" by blast
    have "card (outstanding {} pre) \<le> card {1..n_triggers}"
      by (rule card_mono) (use sub in simp_all)
    then show ?thesis using sub by (simp add: n_triggers_def)
  qed
  have c: "e = ResourceExhausted \<and> outstanding {} pre = {1..n_triggers}"
    if "es = pre @ Failed e # post" for pre e post
  proof -
    from prefix[OF that] obtain s1 where s1: "replay s1 (Failed e # post) = Some s"
      "internal_triggers s1 \<union> outstanding {} pre = {1..n_triggers}" by blast
    from s1(1) have "internal_triggers s1 = {} \<and> e = ResourceExhausted"
      by (auto simp: allocate_trigger_Inl split: if_splits)
    with s1(2) show ?thesis by simp
  qed
  from prefix[of es "[]"] have d: "internal_triggers s \<inter> outstanding {} es = {}"
    "internal_triggers s \<union> outstanding {} es = {1..n_triggers}" by auto
  have e: "internal_triggers s = {} \<longrightarrow> allocate_trigger s = {(Inl ResourceExhausted, s)}"
    by (simp add: allocate_trigger_def)
  have f: "internal_triggers s \<noteq> {} \<longrightarrow> (\<forall>(r, s') \<in> allocate_trigger s. \<exists>t. r = Inr t)"
    by (auto simp: allocate_trigger_def)
  from a b c d e f show ?thesis by blast
qed

theorem trigger_pool_invariant_witness:
  "replay SPDac_init [Issued 3, Freed 3, Issued 3, Issued 5]
     = Some \<lparr>internal_triggers = {1..14} - {3, 5}, round_off = None, sent = []\<rparr>
   \<and> set (freed_ids [Issued 3, Freed 3, Issued 3, Issued 5]) \<subseteq> {1..n_triggers}
   \<and> card (outstanding {} [Issued 3, Freed 3, Issued 3, Issued 5]) \<le> 14
   \<and> ({1..14} - {3, 5}) \<inter> outstanding {} [Issued 3, Freed 3, Issued 3, Issued 5] = {}
   \<and> 3 \<notin> outstanding {} [Issued 3, Freed 3]"
proof -
  let ?es = "[Issued 3, Freed 3, Issued 3, Issued 5]"
  let ?s = "\<lparr>internal_triggers = {1..14} - {3, 5}, round_off = None, sent = []\<rparr>"
  have run: "replay (set_up_internal_triggers
               (set_up_debug_settings \<lparr>internal_triggers = {}, round_off = None, sent = []\<rparr>)) ?es
             = Some ?s"
    by (auto simp: Let_def allocate_trigger_Inr set_up_internal_triggers_def n_triggers_def
        free_trigger_def trigger_context_to_value_def set_up_debug_settings_def)
  have ids: "set (freed_ids ?es) \<subseteq> {1..n_triggers}"
    by (simp add: n_triggers_def)
  note inv = trigger_pool_invariant [OF run ids]
  from inv have "card (outstanding {} (?es @ [])) \<le> 14"
    by (metis append_Nil2)
  moreover from inv have "internal_triggers ?s \<inter> outstanding {} ?es = {}"
    by blast
  moreover from inv have "3 \<notin> outstanding {} [Issued 3, Freed 3]"
    by (metis append_Cons append_Nil)
  ultimately show ?thesis using run ids by (simp add: SPDac_init_def)
qed

lemma free_trigger_twice:
  "free_trigger (free_trigger s t) t = free_trigger s t"
  by (simp add: free_trigger_def)

lemma free_trigger_of_free:
  "trigger_context_to_value t \<in> internal_triggers s \<Longrightarrow> free_trigger s t = s"
  by (simp add: free_trigger_def insert_absorb)

text \<open>
  Claim C10. Freeing a trigger whose number is already in the free pool leaves the driver
  unchanged, and freeing the same trigger twice in a row gives the same free set as
  freeing it once; \<open>free_trigger\<close> has no failure outcome at all.
\<close>

theorem free_trigger_idempotent:
  "(trigger_context_to_value t \<in> internal_triggers s \<longrightarrow> free_trigger s t = s)
   \<and> internal_triggers (free_trigger (free_trigger s t) t) = internal_triggers (free_trigger s t)
   \<and> internal_triggers (free_trigger s t)
       = insert (trigger_context_to_value t) (internal_triggers s)"
  by (simp add: free_trigger_def insert_absorb)

theorem free_trigger_idempotent_witness:
  "trigger_context_to_value (SPDacTrigger_Context 3)
     \<in> internal_triggers (set_up_internal_triggers \<lparr>internal_triggers = {}, round_off = None, sent = []\<rparr>)
   \<and> free_trigger (set_up_internal_triggers \<lparr>internal_triggers = {}, round_off = None, sent = []\<rparr>)
        (SPDacTrigger_Context 3)
     = set_up_internal_triggers \<lparr>internal_triggers = {}, round_off = None, sent = []\<rparr>"
  using free_trigger_idempotent
    [of "SPDacTrigger_Context 3"
        "set_up_internal_triggers \<lparr>internal_triggers = {}, round_off = None, sent = []\<rparr>"]
  by (simp add: trigger_context_to_value_def set_up_internal_triggers_def n_triggers_def)

section \<open>Products with the identity matrix\<close>

lemma dot_sum:
  "length xs = length ys \<Longrightarrow> dot xs ys = (\<Sum>k<length xs. xs ! k * ys ! k)"
proof -
  assume l: "length xs = length ys"
  have "dot xs ys = (\<Sum>k = 0..<length (map2 (*) xs ys). map2 (*) xs ys ! k)"
    unfolding dot_def by (rule sum_list_sum_nth)
  also have "\<dots> = (\<Sum>k = 0..<length xs. xs ! k * ys ! k)"
    using l by (intro sum.cong) auto
  finally show ?thesis by (simp add: lessThan_atLeast0)
qed

lemma dot_unit_row:
  assumes "i < n" "length v = n"
  shows "dot (map (\<lambda>j. if i = j then 1 else 0) [0..<n]) v = v ! i"
proof -
  have "dot (map (\<lambda>j. if i = j then 1 else 0) [0..<n]) v
        = (\<Sum>k<n. (if i = k then 1 else 0) * v ! k)"
    using assms by (simp add: dot_sum)
  also have "\<dots> = (\<Sum>k<n. if k = i then v ! k else 0)"
    by (intro sum.cong) auto
  also have "\<dots> = v ! i"
    using assms by (simp add: sum.delta)
  finally show ?thesis .
qed

lemma matvec_identity:
  "length v = n \<Longrightarrow> matvec (np_identity n) v = v"
  by (rule nth_equalityI) (simp_all add: matvec_def np_identity_def dot_unit_row)

lemma contact_index_unknown:
  "name \<notin> fst ` set (contacts a) \<Longrightarrow> contact_index a name = Inl (KeyError name)"
proof -
  assume "name \<notin> fst ` set (contacts a)"
  then have "map_of (contacts a) name = None" by (simp add: map_of_eq_None_iff)
  then show ?thesis by (simp add: contact_index_def)
qed

section \<open>What the constructor establishes\<close>

lemma allocate_trigger_frame:
  "(r, s') \<in> allocate_trigger s \<Longrightarrow> round_off s' = round_off s \<and> sent s' = sent s"
  by (auto simp: allocate_trigger_def split: if_splits)

lemma allocate_internal_triggers_loop_frame:
  "(r, s', a') \<in> allocate_internal_triggers_loop s a names \<Longrightarrow>
   contact_names a' = contact_names a \<and> contacts a' = contacts a \<and> channels a' = channels a
   \<and> virtual_voltages a' = virtual_voltages a \<and> correction a' = correction a
   \<and> external_triggers a' = external_triggers a
   \<and> outer_trigger_channel a' = outer_trigger_channel a
   \<and> round_off s' = round_off s \<and> sent s' = sent s"
proof (induction names arbitrary: s a)
  case Nil
  then show ?case by simp
next
  case (Cons name names)
  from Cons.prems obtain r1 s1 where a: "(r1, s1) \<in> allocate_trigger s"
    and b: "(r, s', a') \<in> (case r1 of Inl e \<Rightarrow> {(Inl e, s1, a)}
        | Inr trigger \<Rightarrow> allocate_internal_triggers_loop s1
              (a\<lparr>arr_internal_triggers := AList.update name trigger (arr_internal_triggers a)\<rparr>) names)"
    by auto
  note f = allocate_trigger_frame[OF a]
  show ?case
  proof (cases r1)
    case (Inl e)
    with b f show ?thesis by auto
  next
    case (Inr trigger)
    with b have "(r, s', a') \<in> allocate_internal_triggers_loop s1
              (a\<lparr>arr_internal_triggers := AList.update name trigger (arr_internal_triggers a)\<rparr>) names"
      by simp
    from Cons.IH[OF this] f show ?thesis by simp
  qed
qed

lemma allocate_internal_triggers_frame:
  "(r, s', a') \<in> allocate_internal_triggers s a names \<Longrightarrow>
   contact_names a' = contact_names a \<and> contacts a' = contacts a \<and> channels a' = channels a
   \<and> virtual_voltages a' = virtual_voltages a \<and> correction a' = correction a
   \<and> external_triggers a' = external_triggers a
   \<and> outer_trigger_channel a' = outer_trigger_channel a
   \<and> round_off s' = round_off s \<and> sent s' = sent s"
  by (cases names) (auto simp: allocate_internal_triggers_def dest: allocate_internal_triggers_loop_frame)

lemma allocate_external_triggers_loop_frame:
  "(r, s', a') \<in> allocate_external_triggers_loop s a ports \<Longrightarrow>
   contact_names a' = contact_names a \<and> contacts a' = contacts a \<and> channels a' = channels a
   \<and> virtual_voltages a' = virtual_voltages a \<and> correction a' = correction a
   \<and> outer_trigger_channel a' = outer_trigger_channel a
   \<and> round_off s' = round_off s"
proof (induction ports arbitrary: s a)
  case Nil
  then show ?case by simp
next
  case (Cons np ports)
  obtain name port where np: "np = (name, port)" by (cases np)
  let ?a1 = "a\<lparr>external_triggers := AList.update name port (external_triggers a)\<rparr>"
  from Cons.prems np obtain r1 s1 where a: "(r1, s1) \<in> allocate_trigger s"
    and b: "(r, s', a') \<in> (case r1 of Inl e \<Rightarrow> {(Inl e, s1, ?a1)}
        | Inr trigger \<Rightarrow> allocate_external_triggers_loop (connect_external_trigger s1 port trigger)
              (?a1\<lparr>arr_internal_triggers := AList.update name trigger (arr_internal_triggers ?a1)\<rparr>) ports)"
    by (auto simp: Let_def)
  note f = allocate_trigger_frame[OF a]
  show ?case
  proof (cases r1)
    case (Inl e)
    with b f show ?thesis by auto
  next
    case (Inr trigger)
    with b have "(r, s', a') \<in> allocate_external_triggers_loop (connect_external_trigger s1 port trigger)
              (?a1\<lparr>arr_internal_triggers := AList.update name trigger (arr_internal_triggers ?a1)\<rparr>) ports"
      by simp
    from Cons.IH[OF this] f show ?thesis
      by (simp add: connect_external_trigger_def spdac_write_def)
  qed
qed

lemma allocate_triggers_frame:
  assumes "(r, s', a') \<in> allocate_triggers s a names ports"
  shows "contact_names a' = contact_names a \<and> contacts a' = contacts a \<and> channels a' = channels a
   \<and> virtual_voltages a' = virtual_voltages a \<and> correction a' = correction a
   \<and> outer_trigger_channel a' = outer_trigger_channel a
   \<and> round_off s' = round_off s"
proof -
  from assms obtain r1 s1 a1 where
    a: "(r1, s1, a1) \<in> allocate_internal_triggers s (a\<lparr>arr_internal_triggers := []\<rparr>) names"
    and b: "(r, s', a') \<in> (case r1 of Inl e \<Rightarrow> {(Inl e, s1, a1)}
                              | Inr _ \<Rightarrow> allocate_external_triggers s1 a1 ports)"
    by (auto simp: allocate_triggers_def)
  note f = allocate_internal_triggers_frame[OF a]
  show ?thesis
  proof (cases r1)
    case (Inl e)
    with b f show ?thesis by auto
  next
    case (Inr u)
    with b have c: "(r, s', a') \<in> allocate_external_triggers s1 a1 ports" by simp
    show ?thesis
    proof (cases ports)
      case None
      with c f show ?thesis by (auto simp: allocate_external_triggers_def)
    next
      case (Some ps)
      with c have "(r, s', a') \<in> allocate_external_triggers_loop s1 (a1\<lparr>external_triggers := []\<rparr>) ps"
        by (simp add: allocate_external_triggers_def)
      from allocate_external_triggers_loop_frame[OF this] f show ?thesis by simp
    qed
  qed
qed

lemma arrange_identity:
  assumes "(Inr a, s') \<in> arrange s cs ports names outer"
  shows "correction a = np_identity (shape a) \<and> virtual_voltages a = np_zeros (shape a)
         \<and> round_off s' = round_off s"
proof -
  let ?a0 = "fix_contact_order
                 \<lparr>contact_names = [], contacts = [], channels = [], virtual_voltages = [],
                  correction = [], arr_internal_triggers = [], external_triggers = [],
                  outer_trigger_channel = None\<rparr> cs"
  from assms obtain u a1 where a: "(Inr u, s', a1) \<in> allocate_triggers s ?a0 names ports"
    and b: "a = a1\<lparr>outer_trigger_channel := outer, correction := np_identity (shape a1)\<rparr>"
    by (auto simp: arrange_def Let_def split: sum.splits)
  note f = allocate_triggers_frame[OF a]
  have "virtual_voltages ?a0 = np_zeros (shape ?a0)"
    by (simp add: fix_contact_order_def Let_def shape_def)
  with f b show ?thesis by (simp add: shape_def)
qed

lemma update_fresh:
  "k \<notin> fst ` set al \<Longrightarrow> AList.update k v al = al @ [(k, v)]"
  by (induction al) auto

lemma fix_contact_order_loop_result:
  "distinct (map fst cs) \<Longrightarrow> fst ` set (contacts a) \<inter> set (map fst cs) = {} \<Longrightarrow>
   contacts (fix_contact_order_loop cs i a) = contacts a @ zip (map fst cs) [i..<i + length cs]
   \<and> channels (fix_contact_order_loop cs i a) = channels a @ map snd cs
   \<and> contact_names (fix_contact_order_loop cs i a) = contact_names a @ map fst cs"
proof (induction cs i a rule: fix_contact_order_loop.induct)
  case (1 index a)
  then show ?case by simp
next
  case (2 contact chan rest index a)
  let ?a = "a\<lparr>contact_names := contact_names a @ [contact],
          contacts := AList.update contact index (contacts a),
          channels := channels a @ [chan]\<rparr>"
  from "2.prems" have fresh: "contact \<notin> fst ` set (contacts a)" by auto
  then have c: "contacts ?a = contacts a @ [(contact, index)]" by (simp add: update_fresh)
  have "distinct (map fst rest)" using "2.prems" by simp
  moreover have "fst ` set (contacts ?a) \<inter> set (map fst rest) = {}"
    using "2.prems" c by auto
  ultimately have IH: "contacts (fix_contact_order_loop rest (index + 1) ?a)
       = contacts ?a @ zip (map fst rest) [index + 1..<index + 1 + length rest]
     \<and> channels (fix_contact_order_loop rest (index + 1) ?a) = channels ?a @ map snd rest
     \<and> contact_names (fix_contact_order_loop rest (index + 1) ?a) = contact_names ?a @ map fst rest"
    by (rule "2.IH")
  have "[index..<index + length ((contact, chan) # rest)] = index # [index + 1..<index + 1 + length rest]"
    by (simp add: upt_rec)
  with IH c show ?case by simp
qed

lemma fix_contact_order_result:
  assumes "distinct (map fst cs)"
  shows "contacts (fix_contact_order a cs) = zip (map fst cs) [0..<length cs]
       \<and> channels (fix_contact_order a cs) = map snd cs
       \<and> contact_names (fix_contact_order a cs) = map fst cs
       \<and> virtual_voltages (fix_contact_order a cs) = np_zeros (length cs)"
  using fix_contact_order_loop_result[OF assms, of "a\<lparr>contact_names := [], contacts := [], channels := []\<rparr>" 0]
  by (simp add: fix_contact_order_def Let_def shape_def)

lemma wf_arrange:
  assumes "(Inr a, s') \<in> arrange s cs ports names outer" "distinct (map fst cs)"
  shows "wf_arrangement a \<and> shape a = length cs \<and> channels a = map snd cs
         \<and> contact_names a = map fst cs"
proof -
  let ?e = "\<lparr>contact_names = [], contacts = [], channels = [], virtual_voltages = [],
                  correction = [], arr_internal_triggers = [], external_triggers = [],
                  outer_trigger_channel = None\<rparr>"
  let ?a0 = "fix_contact_order ?e cs"
  from assms obtain u a1 where a: "(Inr u, s', a1) \<in> allocate_triggers s ?a0 names ports"
    and b: "a = a1\<lparr>outer_trigger_channel := outer, correction := np_identity (shape a1)\<rparr>"
    by (auto simp: arrange_def Let_def split: sum.splits)
  note f = allocate_triggers_frame[OF a]
  note r = fix_contact_order_result[OF assms(2), of ?e]
  have n: "shape a = length cs" using b f r by (simp add: shape_def)
  have "list_all (\<lambda>(name, index). index < length cs) (zip (map fst cs) [0..<length cs])"
    by (auto simp: list_all_iff dest: set_zip_rightD)
  moreover have "list_all (\<lambda>row. length row = length cs) (np_identity (length cs))"
    by (auto simp: list_all_iff np_identity_def)
  ultimately show ?thesis using b f r n
    by (simp add: wf_arrangement_def shape_def np_zeros_def np_identity_def)
qed

section \<open>Setting virtual voltages\<close>

lemma arrange_two_contacts:
  "arrange SPDac_init [(''a'', 1), (''b'', 2)] None None None = {(Inr two_contacts, SPDac_init)}"
  by (simp add: arrange_def fix_contact_order_def Let_def shape_def np_zeros_def np_identity_def
      allocate_triggers_def allocate_internal_triggers_def allocate_external_triggers_def
      upt_rec numeral_2_eq_2 two_contacts_def)

text \<open>
  Claim C6. For a name that is not a contact of the arrangement, \<open>set_virtual_voltage\<close>
  raises the error for an unknown contact and returns the driver and the arrangement as
  they were: the virtual voltages are unmodified and nothing is written to the instrument.
\<close>

theorem set_virtual_voltage_unknown_contact:
  "name \<notin> fst ` set (contacts a) \<Longrightarrow>
   set_virtual_voltage s a name v = (Inl (UnknownContact name), s, a)"
  by (simp add: set_virtual_voltage_def contact_index_unknown)

theorem set_virtual_voltage_unknown_contact_witness:
  "''missing'' \<notin> fst ` set (contacts two_contacts)
   \<and> set_virtual_voltage SPDac_init two_contacts ''missing'' 1
       = (Inl (UnknownContact ''missing''), SPDac_init, two_contacts)"
proof -
  have h: "''missing'' \<notin> fst ` set (contacts two_contacts)"
    by (simp add: two_contacts_def)
  from set_virtual_voltage_unknown_contact [OF h] h show ?thesis by simp
qed

text \<open>
  Claim C7. The constructor leaves the identity matrix as correction matrix (and the
  virtual voltages at zero); and whenever the correction matrix is the identity and no
  rounding precision is set, \<open>actual_voltages\<close> returns the virtual-voltage vector itself,
  whatever that vector is.
\<close>

theorem identity_correction_no_op:
  "((Inr a0, s0') \<in> arrange s0 cs ports names outer \<longrightarrow>
      correction a0 = np_identity (shape a0) \<and> virtual_voltages a0 = np_zeros (shape a0))
   \<and> (correction a = np_identity (shape a) \<and> round_off s = None \<and> length v = shape a \<longrightarrow>
        actual_voltages s (a\<lparr>virtual_voltages := v\<rparr>) = v)"
proof (intro conjI impI)
  assume "(Inr a0, s0') \<in> arrange s0 cs ports names outer"
  from arrange_identity[OF this]
  show "correction a0 = np_identity (shape a0)" "virtual_voltages a0 = np_zeros (shape a0)"
    by simp_all
next
  assume "correction a = np_identity (shape a) \<and> round_off s = None \<and> length v = shape a"
  then show "actual_voltages s (a\<lparr>virtual_voltages := v\<rparr>) = v"
    by (simp add: actual_voltages_def matvec_identity)
qed

theorem identity_correction_no_op_witness:
  "(Inr two_contacts, SPDac_init) \<in> arrange SPDac_init [(''a'', 1), (''b'', 2)] None None None
   \<and> correction two_contacts = np_identity (shape two_contacts)
   \<and> round_off SPDac_init = None
   \<and> length [3 / 10, - 3 / 2 :: real] = shape two_contacts
   \<and> actual_voltages SPDac_init (two_contacts\<lparr>virtual_voltages := [3 / 10, - 3 / 2]\<rparr>)
       = [3 / 10, - 3 / 2]"
proof -
  have a: "(Inr two_contacts, SPDac_init) \<in> arrange SPDac_init [(''a'', 1), (''b'', 2)] None None None"
    by (simp add: arrange_two_contacts)
  have b: "correction two_contacts = np_identity (shape two_contacts)"
    by (simp add: two_contacts_def np_identity_def shape_def upt_rec numeral_2_eq_2)
  have c: "round_off SPDac_init = None"
    by (simp add: SPDac_init_def set_up_internal_triggers_def set_up_debug_settings_def)
  have d: "length [3 / 10, - 3 / 2 :: real] = shape two_contacts"
    by (simp add: two_contacts_def shape_def)
  from identity_correction_no_op
    [of two_contacts SPDac_init SPDac_init "[(''a'', 1), (''b'', 2)]" None None None
        two_contacts SPDac_init "[3 / 10, - 3 / 2]"]
    a b c d
  show ?thesis by simp
qed

section \<open>The correction matrix\<close>

lemma n_columns_square:
  "0 < length m \<Longrightarrow> list_all (\<lambda>row. length row = n) m \<Longrightarrow> n_columns m = n"
  by (cases m) (auto simp: n_columns_def)

lemma n_columns_identity: "0 < n \<Longrightarrow> n_columns (np_identity n) = n"
  by (rule n_columns_square) (auto simp: np_identity_def list_all_iff)

lemma length_column [simp]: "length (column m j) = length m"
  by (simp add: column_def)

lemma nth_column: "r < length m \<Longrightarrow> column m j ! r = m ! r ! j"
  by (simp add: column_def)

lemma length_matmul [simp]: "length (matmul a b) = length a"
  by (simp add: matmul_def)

lemma nth_matmul:
  "r < length a \<Longrightarrow> matmul a b ! r = map (\<lambda>j. dot (a ! r) (column b j)) [0..<n_columns b]"
  by (simp add: matmul_def)

lemma nth_identity:
  "r < n \<Longrightarrow> np_identity n ! r = map (\<lambda>j. if r = j then 1 else 0) [0..<n]"
  by (simp add: np_identity_def)

lemma matmul_unit_row:
  assumes "r < n" "length m = n" "list_all (\<lambda>row. length row = n) m" "length p = n"
    and "p ! r = np_identity n ! r"
  shows "matmul p m ! r = m ! r"
proof -
  have nc: "n_columns m = n" using assms by (intro n_columns_square) auto
  have len: "length (m ! r) = n" using assms by (simp add: list_all_length)
  have "matmul p m ! r = map (\<lambda>j. dot (np_identity n ! r) (column m j)) [0..<n]"
    using assms nc by (simp add: nth_matmul)
  also have "\<dots> = map (\<lambda>j. column m j ! r) [0..<n]"
    using assms by (simp add: nth_identity dot_unit_row)
  also have "\<dots> = map (\<lambda>j. m ! r ! j) [0..<n]"
    using assms by (simp add: nth_column)
  also have "\<dots> = m ! r"
    using map_nth[of "m ! r"] len by simp
  finally show ?thesis .
qed

lemma matmul_entry:
  assumes "r < length p" "length (p ! r) = length m" "j < n_columns m"
  shows "matmul p m ! r ! j = (\<Sum>k<length m. p ! r ! k * m ! k ! j)"
  using assms by (simp add: nth_matmul dot_sum nth_column)

lemma contact_index_bound:
  "wf_arrangement a \<Longrightarrow> contact_index a contact = Inr index \<Longrightarrow> index < shape a"
proof -
  assume wf: "wf_arrangement a" and ci: "contact_index a contact = Inr index"
  from ci have "map_of (contacts a) contact = Some index"
    by (simp add: contact_index_def split: option.splits)
  then have "(contact, index) \<in> set (contacts a)" by (rule map_of_SomeD)
  with wf show ?thesis by (auto simp: wf_arrangement_def list_all_iff)
qed

text \<open>
  Claim C3. For an arrangement that satisfies the shape invariant, a contact of it with
  index \<open>index\<close> and as many factors as contacts, \<open>add_correction\<close> succeeds and changes
  only the correction matrix, which becomes the product \<open>P \<cdot> M\<close> of the identity matrix
  with row \<open>index\<close> replaced by the factors and the previous matrix \<open>M\<close>. Row by row: every
  other row of \<open>M\<close> stays as it was and row \<open>index\<close> becomes the combination of the rows of
  \<open>M\<close> weighted by the factors. The shape invariant is kept.
\<close>

theorem add_correction_left_multiplies:
  assumes wf: "wf_arrangement a"
    and ci: "contact_index a contact = Inr index"
    and len: "length factors = shape a"
  shows "add_correction a contact factors
           = (Inr (), a\<lparr>correction :=
                          matmul ((np_identity (shape a))[index := factors]) (correction a)\<rparr>)
       \<and> (\<forall>r<shape a. r \<noteq> index \<longrightarrow>
             matmul ((np_identity (shape a))[index := factors]) (correction a) ! r
               = correction a ! r)
       \<and> (\<forall>j<shape a.
             matmul ((np_identity (shape a))[index := factors]) (correction a) ! index ! j
               = (\<Sum>k<shape a. factors ! k * correction a ! k ! j))
       \<and> wf_arrangement
           (a\<lparr>correction := matmul ((np_identity (shape a))[index := factors]) (correction a)\<rparr>)"
proof -
  let ?n = "shape a"
  let ?p = "(np_identity ?n)[index := factors]"
  let ?m = "correction a"
  from wf ci have i: "index < ?n" by (rule contact_index_bound)
  from wf have lm: "length ?m = ?n" and rows: "list_all (\<lambda>row. length row = ?n) ?m"
    by (simp_all add: wf_arrangement_def)
  have lp: "length ?p = ?n" by (simp add: np_identity_def)
  have nc: "n_columns ?m = ?n" using i lm rows by (intro n_columns_square) auto
  have "set_row (np_identity ?n) index factors = Inr ?p"
    using i len by (simp add: set_row_def n_columns_identity) (simp add: np_identity_def)
  with ci have 1: "add_correction a contact factors = (Inr (), a\<lparr>correction := matmul ?p ?m\<rparr>)"
    by (simp add: add_correction_def)
  have 2: "matmul ?p ?m ! r = ?m ! r" if "r < ?n" "r \<noteq> index" for r
  proof (rule matmul_unit_row[OF that(1) lm rows lp])
    show "?p ! r = np_identity ?n ! r" using that by simp
  qed
  have 3: "matmul ?p ?m ! index ! j = (\<Sum>k<?n. factors ! k * ?m ! k ! j)" if "j < ?n" for j
  proof -
    have "?p ! index = factors" using i by (simp add: np_identity_def)
    with matmul_entry[of index ?p ?m j] i lp lm len nc that show ?thesis by simp
  qed
  have "list_all (\<lambda>row. length row = ?n) (matmul ?p ?m)"
    using nc by (simp add: matmul_def list_all_iff)
  with wf lp have 4: "wf_arrangement (a\<lparr>correction := matmul ?p ?m\<rparr>)"
    by (simp add: wf_arrangement_def shape_def)
  from 1 2 3 4 show ?thesis by blast
qed

theorem add_correction_left_multiplies_witness:
  "wf_arrangement (two_contacts\<lparr>correction := [[1, 2], [0, 1]]\<rparr>)
   \<and> contact_index (two_contacts\<lparr>correction := [[1, 2], [0, 1]]\<rparr>) ''b'' = Inr 1
   \<and> length [1 / 2, 1 :: real] = shape (two_contacts\<lparr>correction := [[1, 2], [0, 1]]\<rparr>)
   \<and> add_correction (two_contacts\<lparr>correction := [[1, 2], [0, 1]]\<rparr>) ''b'' [1 / 2, 1]
       = (Inr (), two_contacts\<lparr>correction := [[1, 2], [1 / 2, 2]]\<rparr>)"
proof -
  let ?a = "two_contacts\<lparr>correction := [[1, 2], [0, 1]]\<rparr>"
  have wf: "wf_arrangement ?a"
    by (simp add: wf_arrangement_def two_contacts_def shape_def)
  have ci: "contact_index ?a ''b'' = Inr 1"
    by (simp add: contact_index_def two_contacts_def)
  have len: "length [1 / 2, 1 :: real] = shape ?a"
    by (simp add: two_contacts_def shape_def)
  have m: "matmul ((np_identity (shape ?a))[1 := [1 / 2, 1]]) (correction ?a) = [[1, 2], [1 / 2, 2]]"
    by (simp add: two_contacts_def shape_def np_identity_def matmul_def n_columns_def
        column_def dot_def upt_rec numeral_2_eq_2)
  from add_correction_left_multiplies [OF wf ci len] wf ci len m show ?thesis by simp
qed

section \<open>Building a 1D sweep\<close>

lemma calculate_1d_loop_result:
  "calculate_1d_loop s a index voltages sw
     = (sw @ map (\<lambda>v. actual_voltages s (a\<lparr>virtual_voltages := (virtual_voltages a)[index := v]\<rparr>))
              voltages,
        a\<lparr>virtual_voltages := (if voltages = [] then virtual_voltages a
                                else (virtual_voltages a)[index := last voltages])\<rparr>)"
proof (induction voltages arbitrary: a sw)
  case Nil
  then show ?case by simp
next
  case (Cons v voltages)
  show ?case by (simp add: Cons.IH Let_def)
qed

lemma virtual_voltage_Inr:
  "virtual_voltage a contact = Inr x \<longleftrightarrow>
     (\<exists>index. contact_index a contact = Inr index \<and> index < length (virtual_voltages a)
        \<and> x = virtual_voltages a ! index)"
  by (auto simp: virtual_voltage_def split: sum.splits)

lemma calculate_1d_values_restores:
  "snd (calculate_1d_values s a contact voltages) = a"
proof (cases "virtual_voltage a contact")
  case (Inl e)
  then show ?thesis by (simp add: calculate_1d_values_def)
next
  case (Inr x)
  then obtain index where i: "contact_index a contact = Inr index"
    "index < length (virtual_voltages a)" "x = virtual_voltages a ! index"
    by (auto simp: virtual_voltage_Inr)
  then show ?thesis using Inr
    by (simp add: calculate_1d_values_def calculate_1d_loop_result)
qed

lemma calculate_1d_values_rows:
  assumes "wf_arrangement a" "contact_index a contact = Inr index"
  shows "fst (calculate_1d_values s a contact voltages)
         = Inr (map (\<lambda>v. actual_voltages s (a\<lparr>virtual_voltages := (virtual_voltages a)[index := v]\<rparr>))
                  voltages)"
proof -
  from assms have "index < length (virtual_voltages a)"
    using contact_index_bound[OF assms] by (simp add: wf_arrangement_def)
  with assms(2) have "virtual_voltage a contact = Inr (virtual_voltages a ! index)"
    by (simp add: virtual_voltage_def)
  with assms(2) show ?thesis
    by (simp add: calculate_1d_values_def calculate_1d_loop_result)
qed

lemma virtual_sweep_context_init_frame:
  "(r, s', a') \<in> virtual_sweep_context_init s a sw st stime strig reps uuid \<Longrightarrow>
   contact_names a' = contact_names a \<and> contacts a' = contacts a \<and> channels a' = channels a
   \<and> virtual_voltages a' = virtual_voltages a \<and> correction a' = correction a
   \<and> external_triggers a' = external_triggers a
   \<and> outer_trigger_channel a' = outer_trigger_channel a
   \<and> round_off s' = round_off s \<and> sent s' = sent s"
  by (auto simp: virtual_sweep_context_init_def Let_def dest!: allocate_internal_triggers_frame)

text \<open>
  Claim C5. Building a 1D sweep leaves the arrangement as it was. For an arrangement in
  the shape invariant, \<open>calculate_1d_values\<close> returns the arrangement unchanged whether it
  succeeds or raises, so the swept contact has its prior virtual voltage again and no
  other entry has moved; for a known contact the program has one row per value, the
  corrected voltages with only that contact's virtual voltage replaced; and every outcome
  of \<open>virtual_sweep\<close>, which also allocates the start trigger, has the virtual voltages
  and the correction matrix of before and has written nothing to the instrument.
\<close>

theorem virtual_sweep_restores_virtual_voltages:
  assumes "wf_arrangement a"
  shows "snd (calculate_1d_values s a contact voltages) = a
       \<and> (\<forall>index. contact_index a contact = Inr index \<longrightarrow>
            fst (calculate_1d_values s a contact voltages)
              = Inr (map (\<lambda>v. actual_voltages s
                                 (a\<lparr>virtual_voltages := (virtual_voltages a)[index := v]\<rparr>))
                       voltages))
       \<and> (\<forall>(r, s', a') \<in> virtual_sweep s a contact voltages st stime strig reps uuid.
            virtual_voltages a' = virtual_voltages a \<and> correction a' = correction a
            \<and> sent s' = sent s)"
proof -
  have "virtual_voltages a' = virtual_voltages a \<and> correction a' = correction a \<and> sent s' = sent s"
    if "(r, s', a') \<in> virtual_sweep s a contact voltages st stime strig reps uuid" for r s' a'
  proof (cases "fst (calculate_1d_values s a contact voltages)")
    case (Inl e)
    then have "calculate_1d_values s a contact voltages = (Inl e, a)"
      using calculate_1d_values_restores[of s a contact voltages] by (metis prod.collapse)
    with that show ?thesis by (simp add: virtual_sweep_def)
  next
    case (Inr sw)
    then have "calculate_1d_values s a contact voltages = (Inr sw, a)"
      using calculate_1d_values_restores[of s a contact voltages] by (metis prod.collapse)
    with that have "(r, s', a') \<in> virtual_sweep_context_init s a sw st stime strig reps uuid"
      by (simp add: virtual_sweep_def)
    from virtual_sweep_context_init_frame[OF this] show ?thesis by simp
  qed
  then show ?thesis
    using calculate_1d_values_restores calculate_1d_values_rows[OF assms] by blast
qed

theorem virtual_sweep_restores_virtual_voltages_witness:
  "wf_arrangement (two_contacts\<lparr>virtual_voltages := [1 / 4, - 1], correction := [[1, 1 / 2], [0, 1]]\<rparr>)
   \<and> snd (calculate_1d_values SPDac_init
            (two_contacts\<lparr>virtual_voltages := [1 / 4, - 1], correction := [[1, 1 / 2], [0, 1]]\<rparr>)
            ''a'' [0, 1, 2])
       = two_contacts\<lparr>virtual_voltages := [1 / 4, - 1], correction := [[1, 1 / 2], [0, 1]]\<rparr>
   \<and> fst (calculate_1d_values SPDac_init
            (two_contacts\<lparr>virtual_voltages := [1 / 4, - 1], correction := [[1, 1 / 2], [0, 1]]\<rparr>)
            ''a'' [0, 1, 2])
       = Inr [[- 1 / 2, - 1], [1 / 2, - 1], [3 / 2, - 1]]"
proof -
  let ?a = "two_contacts\<lparr>virtual_voltages := [1 / 4, - 1], correction := [[1, 1 / 2], [0, 1]]\<rparr>"
  have wf: "wf_arrangement ?a"
    by (simp add: wf_arrangement_def two_contacts_def shape_def)
  have ci: "contact_index ?a ''a'' = Inr 0"
    by (simp add: contact_index_def two_contacts_def)
  have r: "round_off SPDac_init = None"
    by (simp add: SPDac_init_def set_up_internal_triggers_def set_up_debug_settings_def)
  note t = virtual_sweep_restores_virtual_voltages [OF wf, of SPDac_init "''a''" "[0, 1, 2]"]
  from t have 1: "snd (calculate_1d_values SPDac_init ?a ''a'' [0, 1, 2]) = ?a" by blast
  from t ci have "fst (calculate_1d_values SPDac_init ?a ''a'' [0, 1, 2])
      = Inr (map (\<lambda>v. actual_voltages SPDac_init
                         (?a\<lparr>virtual_voltages := (virtual_voltages ?a)[0 := v]\<rparr>)) [0, 1, 2])"
    by blast
  also have "\<dots> = Inr [[- 1 / 2, - 1], [1 / 2, - 1], [3 / 2, - 1]]"
    by (simp add: actual_voltages_def r matvec_def dot_def two_contacts_def)
  finally show ?thesis using wf 1 by simp
qed

section \<open>The detune sweep\<close>

lemma linspace_evenly_spaced:
  assumes "0 \<le> num"
  shows "linspace start stop num = Inr (evenly_spaced start stop (nat num))"
proof -
  let ?n = "nat num"
  show ?thesis
  proof (cases "1 < ?n")
    case True
    let ?y = "map (\<lambda>i. real i * ((stop - start) / real (?n - 1)) + start) [0..<?n]"
    have "?y[?n - 1 := stop] = evenly_spaced start stop ?n"
    proof (rule nth_equalityI)
      show "length (?y[?n - 1 := stop]) = length (evenly_spaced start stop ?n)"
        by (simp add: evenly_spaced_def)
    next
      fix i assume "i < length (?y[?n - 1 := stop])"
      then have i: "i < ?n" by simp
      show "?y[?n - 1 := stop] ! i = evenly_spaced start stop ?n ! i"
      proof (cases "i = ?n - 1")
        case True
        then have "real i * (stop - start) / real (?n - 1) = stop - start"
          using \<open>1 < ?n\<close> by simp
        moreover have "\<not> ?n \<le> 1" using \<open>1 < ?n\<close> by simp
        ultimately show ?thesis using True i by (simp add: evenly_spaced_def)
      next
        case False
        moreover have "\<not> ?n \<le> 1" using \<open>1 < ?n\<close> by simp
        ultimately show ?thesis using i by (simp add: evenly_spaced_def algebra_simps)
      qed
    qed
    with True assms show ?thesis by (simp add: linspace_def Let_def)
  next
    case False
    then have "?n = 0 \<or> ?n = 1" by auto
    then have "map (\<lambda>i. real i * (stop - start) + start) [0..<?n] = evenly_spaced start stop ?n"
      by (auto simp: evenly_spaced_def)
    with False assms show ?thesis by (simp add: linspace_def Let_def)
  qed
qed

lemma forward_and_back_there_and_back:
  assumes "0 \<le> steps"
  shows "forward_and_back start stop steps
         = Inr (there_and_back (evenly_spaced start stop (nat steps)))"
proof -
  have "butlast (tl (rev xs)) = rev (butlast (tl xs))" for xs :: "real list"
  proof -
    have "butlast (rev (rev xs)) = rev (tl (rev xs))" by (rule butlast_rev)
    then have "tl (rev xs) = rev (butlast xs)" by (simp add: rev_swap)
    then show ?thesis by (simp add: butlast_tl)
  qed
  then show ?thesis
    by (simp add: forward_and_back_def linspace_evenly_spaced[OF assms] there_and_back_def)
qed

lemma length_evenly_spaced [simp]: "length (evenly_spaced start stop n) = n"
  by (simp add: evenly_spaced_def)

lemma length_there_and_back [simp]: "length (there_and_back xs) = length xs + (length xs - 2)"
  by (simp add: there_and_back_def)

lemma store_all_Cons:
  "store_all vv (i # is) (x # xs) = store_all (vv[i := x]) is xs"
  by (simp add: store_all_def)

lemma store_all_Nil [simp]: "store_all vv [] xs = vv" "store_all vv is [] = vv"
  by (simp_all add: store_all_def)

lemma length_store_all [simp]: "length (store_all vv is xs) = length vv"
proof (induction "is" arbitrary: vv xs)
  case Nil
  then show ?case by simp
next
  case (Cons i "is")
  then show ?case by (cases xs) (simp_all add: store_all_Cons)
qed

lemma nth_store_all:
  "length is = length xs \<Longrightarrow> j < length vv \<Longrightarrow>
   store_all vv is xs ! j = (case map_of (rev (zip is xs)) j of None \<Rightarrow> vv ! j | Some x \<Rightarrow> x)"
proof (induction "is" xs arbitrary: vv rule: list_induct2)
  case Nil
  then show ?case by simp
next
  case (Cons i "is" x xs)
  then show ?case
    by (auto simp: store_all_Cons map_add_def nth_list_update split: option.splits)
qed

lemma map_of_rev_zip_None:
  "length is = length xs \<Longrightarrow> map_of (rev (zip is xs)) j = None \<longleftrightarrow> j \<notin> set is"
proof -
  assume l: "length is = length xs"
  have "fst ` set (zip is xs) = set (map fst (zip is xs))" by simp
  also have "\<dots> = set is" using l by (simp only: map_fst_zip)
  finally show ?thesis by (simp add: map_of_eq_None_iff)
qed

lemma store_all_overwrite:
  assumes "length is = length xs" "length is = length ys"
  shows "store_all (store_all vv is xs) is ys = store_all vv is ys"
proof (rule nth_equalityI)
  show "length (store_all (store_all vv is xs) is ys) = length (store_all vv is ys)" by simp
next
  fix j assume "j < length (store_all (store_all vv is xs) is ys)"
  then have j: "j < length vv" by simp
  show "store_all (store_all vv is xs) is ys ! j = store_all vv is ys ! j"
  proof (cases "map_of (rev (zip is ys)) j")
    case None
    then have "j \<notin> set is" using assms by (simp add: map_of_rev_zip_None)
    then have "map_of (rev (zip is xs)) j = None" using assms by (simp add: map_of_rev_zip_None)
    with None j assms show ?thesis by (simp add: nth_store_all)
  next
    case (Some y)
    with j assms show ?thesis by (simp add: nth_store_all)
  qed
qed

lemma store_all_originals:
  "store_all vv is (map ((!) vv) is) = vv"
proof (rule nth_equalityI)
  show "length (store_all vv is (map ((!) vv) is)) = length vv" by simp
next
  fix j assume "j < length (store_all vv is (map ((!) vv) is))"
  then have j: "j < length vv" by simp
  show "store_all vv is (map ((!) vv) is) ! j = vv ! j"
  proof (cases "map_of (rev (zip is (map ((!) vv) is))) j")
    case None
    with j show ?thesis by (simp add: nth_store_all)
  next
    case (Some y)
    then have "(j, y) \<in> set (zip is (map ((!) vv) is))"
      by (auto dest: map_of_SomeD)
    then have "y = vv ! j" by (auto simp: set_zip)
    with Some j show ?thesis by (simp add: nth_store_all)
  qed
qed

lemma store_all_restore:
  "length is = length xs \<Longrightarrow> store_all (store_all vv is xs) is (map ((!) vv) is) = vv"
  by (simp add: store_all_overwrite store_all_originals)

lemma nth_store_all_distinct:
  assumes "distinct is" "length is = length xs" "k < length is" "is ! k < length vv"
  shows "store_all vv is xs ! (is ! k) = xs ! k"
proof -
  have "distinct (map fst (rev (zip is xs)))"
    using assms by (simp add: rev_map [symmetric] distinct_rev)
  moreover have "(is ! k, xs ! k) \<in> set (rev (zip is xs))"
    using assms by (auto simp: set_zip)
  ultimately have "map_of (rev (zip is xs)) (is ! k) = Some (xs ! k)"
    by (rule map_of_is_SomeI)
  with assms show ?thesis by (simp add: nth_store_all)
qed

lemma nth_store_all_other:
  "length is = length xs \<Longrightarrow> j < length vv \<Longrightarrow> j \<notin> set is \<Longrightarrow> store_all vv is xs ! j = vv ! j"
  by (simp add: nth_store_all map_of_rev_zip_None [THEN iffD2])

lemma calculate_detune_loop_result:
  "list_all (\<lambda>row. length row = length indices) rows \<Longrightarrow>
   calculate_detune_loop s a indices rows sw
     = (sw @ map (\<lambda>row. actual_voltages s
                          (a\<lparr>virtual_voltages := store_all (virtual_voltages a) indices row\<rparr>)) rows,
        a\<lparr>virtual_voltages := (if rows = [] then virtual_voltages a
                                else store_all (virtual_voltages a) indices (last rows))\<rparr>)"
proof (induction rows arbitrary: a sw)
  case Nil
  then show ?case by simp
next
  case (Cons row rows)
  then have l: "length indices = length row" and rest: "list_all (\<lambda>row. length row = length indices) rows"
    by simp_all
  have "store_all (store_all (virtual_voltages a) indices row) indices r
        = store_all (virtual_voltages a) indices r" if "r \<in> set rows" for r
    using that rest l by (intro store_all_overwrite) (auto simp: list_all_iff)
  then show ?case using Cons.IH[OF rest] by (simp add: Let_def)
qed

lemma map_raising_Inr_iff:
  "map_raising f xs = Inr ys \<longleftrightarrow> list_all2 (\<lambda>x y. f x = Inr y) xs ys"
proof (induction xs arbitrary: ys)
  case Nil
  then show ?case by auto
next
  case (Cons x xs)
  show ?case
  proof (cases "f x")
    case (Inl e)
    then show ?thesis by (auto simp: list_all2_Cons1)
  next
    case fx: (Inr y)
    show ?thesis
    proof (cases "map_raising f xs")
      case (Inl e)
      then have "\<not> list_all2 (\<lambda>x y. f x = Inr y) xs zs" for zs
        using Cons.IH[of zs] by simp
      with Inl fx show ?thesis by (auto simp: list_all2_Cons1)
    next
      case (Inr zs)
      then have "list_all2 (\<lambda>x y. f x = Inr y) xs zs' \<longleftrightarrow> zs' = zs" for zs'
        using Cons.IH[of zs'] by auto
      with Inr fx show ?thesis by (auto simp: list_all2_Cons1)
    qed
  qed
qed

lemma map_raising_map:
  "(\<And>x. x \<in> set xs \<Longrightarrow> f x = Inr (g x)) \<Longrightarrow> map_raising f xs = Inr (map g xs)"
  by (simp add: map_raising_Inr_iff list_all2_map2 list_all2_same)

lemma zip_star_traces:
  assumes "\<And>k. k < n \<Longrightarrow> length (trace k) = l"
  shows "zip_star (map trace [0..<n])
         = map (\<lambda>t. map (\<lambda>k. trace k ! t) [0..<n]) [0..<(if n = 0 then 0 else l)]"
proof (cases "n = 0")
  case True
  then show ?thesis by (simp add: zip_star_def)
next
  case False
  have "set (map length (map trace [0..<n])) = {l}"
    using assms False by (auto simp: image_iff)
  then have "Min (set (map length (map trace [0..<n]))) = l" by simp
  with False show ?thesis by (simp add: zip_star_def comp_def)
qed

lemma store_all_restore_rows:
  assumes "list_all (\<lambda>row. length row = length is) rows"
  shows "store_all (if rows = [] then vv else store_all vv is (last rows)) is (map ((!) vv) is) = vv"
proof (cases "rows = []")
  case True
  then show ?thesis by (simp add: store_all_originals)
next
  case False
  then have "last rows \<in> set rows" by simp
  with assms have "length is = length (last rows)" by (simp add: list_all_iff)
  with False show ?thesis by (simp add: store_all_restore)
qed

text \<open>
  Claim C4. Take an arrangement in the shape invariant, a list of its contacts, one start
  and one end value per listed contact and a step count that is not negative. For every
  listed contact \<open>forward_and_back\<close> yields the evenly spaced points from its start to
  its end value followed by the reverse of those points without both end points. The
  detune program has one row per position of these sequences: the corrected voltages for
  the virtual voltages in which every listed contact has the value of its own sequence
  at that position and every other contact keeps its value (with a contact listed twice
  the later entry counts); afterwards the arrangement is as before. For start 0, end 1 and
  3 steps the sequence is 0, 1/2, 1 and then 1/2.
\<close>

theorem detune_sweep_forward_and_back:
  fixes start_V end_V :: "real list" and steps :: int and trace :: "nat \<Rightarrow> real list"
  defines "trace \<equiv> \<lambda>k. there_and_back (evenly_spaced (start_V ! k) (end_V ! k) (nat steps))"
  assumes wf: "wf_arrangement a"
    and idx: "map_raising (contact_index a) cs = Inr indices"
    and ls: "length start_V = length cs"
    and le: "length end_V = length cs"
    and st: "0 \<le> steps"
  shows "(\<forall>k<length cs. forward_and_back (start_V ! k) (end_V ! k) steps = Inr (trace k))
       \<and> calculate_detune_values s a cs start_V end_V steps
           = (Inr (map (\<lambda>t. actual_voltages s
                               (a\<lparr>virtual_voltages :=
                                    store_all (virtual_voltages a) indices
                                      (map (\<lambda>k. trace k ! t) [0..<length cs])\<rparr>))
                     [0..<(if cs = [] then 0 else nat steps + (nat steps - 2))]),
              a)
       \<and> (\<forall>t j. j < shape a \<and> j \<notin> set indices \<longrightarrow>
             store_all (virtual_voltages a) indices (map (\<lambda>k. trace k ! t) [0..<length cs]) ! j
               = virtual_voltages a ! j)
       \<and> (distinct indices \<longrightarrow>
            (\<forall>t. \<forall>k<length cs.
               store_all (virtual_voltages a) indices (map (\<lambda>k. trace k ! t) [0..<length cs])
                 ! (indices ! k) = trace k ! t))
       \<and> forward_and_back 0 1 3 = Inr [0, 1 / 2, 1, 1 / 2]"
proof -
  let ?n = "length cs"
  let ?vv = "virtual_voltages a"
  let ?l = "nat steps + (nat steps - 2)"
  let ?row = "\<lambda>t. map (\<lambda>k. trace k ! t) [0..<?n]"
  from idx have all2: "list_all2 (\<lambda>c i. contact_index a c = Inr i) cs indices"
    by (simp add: map_raising_Inr_iff)
  then have li: "length indices = ?n" by (simp add: list_all2_lengthD)
  have ci: "contact_index a (cs ! k) = Inr (indices ! k)" if "k < ?n" for k
    using all2 that by (simp add: list_all2_conv_all_nth)
  have bound: "indices ! k < length ?vv" if "k < ?n" for k
    using contact_index_bound[OF wf ci[OF that]] wf by (simp add: wf_arrangement_def)
  have lvv: "length ?vv = shape a" using wf by (simp add: wf_arrangement_def)
  have 1: "forward_and_back (start_V ! k) (end_V ! k) steps = Inr (trace k)" for k
    unfolding trace_def by (rule forward_and_back_there_and_back[OF st])
  have orig: "map_raising (virtual_voltage a) cs = Inr (map ((!) ?vv) indices)"
    unfolding map_raising_Inr_iff list_all2_conv_all_nth
    using li ci bound by (simp add: virtual_voltage_def)
  have fwd: "map_raising (forward_V_at start_V end_V steps) [0..<?n] = Inr (map trace [0..<?n])"
    by (rule map_raising_map) (simp add: forward_V_at_def ls le 1)
  have ltrace: "length (trace k) = ?l" for k
    by (simp add: trace_def)
  define rs where "rs = map ?row [0..<(if cs = [] then 0 else ?l)]"
  define final where "final = (if rs = [] then ?vv else store_all ?vv indices (last rs))"
  have zs: "zip_star (map trace [0..<?n]) = rs"
    unfolding rs_def using zip_star_traces[of ?n trace ?l] ltrace by simp
  have rows: "list_all (\<lambda>row. length row = length indices) rs"
    by (simp add: list_all_iff li rs_def)
  have loop: "calculate_detune_loop s a indices rs []
              = (map (\<lambda>row. actual_voltages s (a\<lparr>virtual_voltages := store_all ?vv indices row\<rparr>)) rs,
                 a\<lparr>virtual_voltages := final\<rparr>)"
    unfolding final_def using calculate_detune_loop_result[OF rows, of s a "[]"] by simp
  have restore: "store_all final indices (map ((!) ?vv) indices) = ?vv"
    unfolding final_def by (rule store_all_restore_rows[OF rows])
  have "calculate_detune_values s a cs start_V end_V steps
        = (Inr (map (\<lambda>row. actual_voltages s (a\<lparr>virtual_voltages := store_all ?vv indices row\<rparr>)) rs),
           a)"
    by (simp add: calculate_detune_values_def orig idx fwd zs loop restore)
  then have 2: "calculate_detune_values s a cs start_V end_V steps
           = (Inr (map (\<lambda>t. actual_voltages s
                               (a\<lparr>virtual_voltages := store_all ?vv indices (?row t)\<rparr>))
                     [0..<(if cs = [] then 0 else ?l)]), a)"
    by (simp add: rs_def comp_def)
  have 3: "store_all ?vv indices (?row t) ! j = ?vv ! j" if "j < shape a" "j \<notin> set indices" for t j
    using that li lvv by (intro nth_store_all_other) simp_all
  have 4: "store_all ?vv indices (?row t) ! (indices ! k) = trace k ! t"
    if "distinct indices" "k < ?n" for t k
  proof -
    have "store_all ?vv indices (?row t) ! (indices ! k) = ?row t ! k"
      using that li bound by (intro nth_store_all_distinct) simp_all
    with that show ?thesis by simp
  qed
  have 5: "forward_and_back 0 1 3 = Inr [0, 1 / 2, 1, 1 / 2]"
    by (simp add: forward_and_back_def linspace_def Let_def upt_rec numeral_3_eq_3)
  from 1 2 3 4 5 show ?thesis by blast
qed

theorem detune_sweep_forward_and_back_witness:
  "wf_arrangement one_contact
   \<and> map_raising (contact_index one_contact) [''a''] = Inr [0]
   \<and> length [0 :: real] = length [''a'']
   \<and> length [1 :: real] = length [''a'']
   \<and> (0 :: int) \<le> 3
   \<and> calculate_detune_values SPDac_init one_contact [''a''] [0] [1] 3
       = (Inr [[0], [1 / 2], [1], [1 / 2]], one_contact)"
proof -
  have wf: "wf_arrangement one_contact"
    by (simp add: wf_arrangement_def one_contact_def shape_def)
  have idx: "map_raising (contact_index one_contact) [''a''] = Inr [0]"
    by (simp add: contact_index_def one_contact_def)
  have ls: "length [0 :: real] = length [''a'']" and le: "length [1 :: real] = length [''a'']"
    by simp_all
  have st: "(0 :: int) \<le> 3" by simp
  have r: "round_off SPDac_init = None"
    by (simp add: SPDac_init_def set_up_internal_triggers_def set_up_debug_settings_def)
  have tr: "there_and_back (evenly_spaced 0 1 (Suc (Suc (Suc 0)))) = [0, 1 / 2, 1, 1 / 2]"
    by (simp add: there_and_back_def evenly_spaced_def upt_rec)
  from detune_sweep_forward_and_back [OF wf idx ls le st, of SPDac_init]
  have "calculate_detune_values SPDac_init one_contact [''a''] [0] [1] 3
        = (Inr (map (\<lambda>t. actual_voltages SPDac_init
                             (one_contact\<lparr>virtual_voltages :=
                                store_all (virtual_voltages one_contact) [0]
                                  (map (\<lambda>k. there_and_back
                                                (evenly_spaced ([0] ! k) ([1] ! k) (nat 3)) ! t)
                                     [0..<length [''a'']])\<rparr>))
                   [0..<(if [''a''] = [] then 0 else nat 3 + (nat 3 - 2))]),
           one_contact)"
    by blast
  also have "\<dots> = (Inr [[0], [1 / 2], [1], [1 / 2]], one_contact)"
    by (simp add: tr actual_voltages_def r matvec_def dot_def one_contact_def store_all_def
        upt_rec numeral_3_eq_3)
  finally show ?thesis using wf idx by simp
qed

end
